theory Spec2Isabelle
  imports Complex_Main "HOL-Library.Multiset"
begin

section \<open>DreamTracker: data model\<close>

text \<open>
  The journal record of \<^verbatim>\<open>lib/supabase.ts\<close> (interface \<^verbatim>\<open>DreamEntry\<close>).  Optional
  fields (\<^verbatim>\<open>id?\<close>, \<^verbatim>\<open>created_at?\<close>) and the nullable \<^verbatim>\<open>mood\<close> are options.  A
  JavaScript \<^verbatim>\<open>number\<close> holding a metric is modelled by its exact rational value;
  the only place where the analytics code can meet \<^verbatim>\<open>NaN\<close> is the time of an absent
  or unparseable \<^verbatim>\<open>created_at\<close>, and that is an option.  Strings are lists of
  characters.
\<close>

record DreamEntry =
  entry_id :: "string option"
  user_id :: string
  title :: string
  content :: string
  sleep_hours :: rat
  caffeine_intake :: rat
  sleep_quality :: rat
  mood :: "string option"
  stress_level :: rat
  created_at :: "string option"

datatype sort_field = Created_at | Sleep_quality | Sleep_hours

datatype sort_order = Asc | Desc

text \<open>
  The parts of the JavaScript runtime that the pages call and that depend on the host
  (date parsing, the local time zone, the clock) are parameters of the model:
  \<^item> \<open>date_getTime s\<close> is \<^verbatim>\<open>new Date(s).getTime()\<close>, \<open>None\<close> standing for \<^verbatim>\<open>NaN\<close>;
  \<^item> \<open>date_label s\<close> is
    \<^verbatim>\<open>new Date(s).toLocaleDateString('en-US', { month: 'short', day: 'numeric' })\<close>;
  \<^item> \<open>now_iso\<close> is \<^verbatim>\<open>new Date().toISOString()\<close>.
\<close>

record runtime =
  date_getTime :: "string \<Rightarrow> int option"
  date_label :: "string \<Rightarrow> string"
  now_iso :: string

section \<open>String operations of the runtime\<close>

definition is_upper :: "char \<Rightarrow> bool" where
  "is_upper c = (65 \<le> (of_char c :: nat) \<and> (of_char c :: nat) \<le> 90)"

text \<open>\<^verbatim>\<open>String.prototype.toLowerCase\<close> on the ASCII letters; other characters are kept.\<close>

definition toLowerCase_char :: "char \<Rightarrow> char" where
  "toLowerCase_char c = (if is_upper c then char_of (of_char c + 32 :: nat) else c)"

definition toLowerCase :: "string \<Rightarrow> string" where
  "toLowerCase s = map toLowerCase_char s"

fun startsWith :: "string \<Rightarrow> string \<Rightarrow> bool" where
  "startsWith s [] = True"
| "startsWith [] (q # qs) = False"
| "startsWith (c # cs) (q # qs) = (c = q \<and> startsWith cs qs)"

text \<open>\<^verbatim>\<open>s.includes(q)\<close>: \<open>q\<close> occurs in \<open>s\<close> at some position.\<close>

fun str_includes :: "string \<Rightarrow> string \<Rightarrow> bool" where
  "str_includes [] q = (q = [])"
| "str_includes (c # cs) q = (startsWith (c # cs) q \<or> str_includes cs q)"

section \<open>Array.prototype.sort\<close>

text \<open>
  \<^verbatim>\<open>Array.prototype.sort(cmp)\<close> always returns a rearrangement of the array.  When
  \<open>cmp\<close> is a consistent comparison the result is the stable sorted order; otherwise
  the order is left to the engine.  The model is one conforming engine: insertion of
  each element, from left to right, before the first element of the sorted prefix that
  it is strictly smaller than.  A comparator result is an integer (a \<^verbatim>\<open>NaN\<close> result
  counts as \<open>0\<close>, as the language prescribes).
\<close>

fun js_insert :: "('a \<Rightarrow> 'a \<Rightarrow> int) \<Rightarrow> 'a \<Rightarrow> 'a list \<Rightarrow> 'a list" where
  "js_insert cmp x [] = [x]"
| "js_insert cmp x (y # ys) = (if cmp x y < 0 then x # y # ys else y # js_insert cmp x ys)"

definition js_sort :: "('a \<Rightarrow> 'a \<Rightarrow> int) \<Rightarrow> 'a list \<Rightarrow> 'a list" where
  "js_sort cmp xs = foldl (\<lambda>acc x. js_insert cmp x acc) [] xs"

section \<open>Analytics page: filtered and sorted view\<close>

text \<open>Comparison of two numbers that may be \<^verbatim>\<open>NaN\<close>: false as soon as one is.\<close>

fun js_gt :: "rat option \<Rightarrow> rat option \<Rightarrow> bool" where
  "js_gt (Some a) (Some b) = (a > b)"
| "js_gt _ _ = False"

fun js_lt :: "rat option \<Rightarrow> rat option \<Rightarrow> bool" where
  "js_lt (Some a) (Some b) = (a < b)"
| "js_lt _ _ = False"

text \<open>\<^verbatim>\<open>entry.created_at || ''\<close>\<close>

definition created_or_empty :: "DreamEntry \<Rightarrow> string" where
  "created_or_empty e = (case created_at e of None \<Rightarrow> [] | Some s \<Rightarrow> s)"

text \<open>
  \<^verbatim>\<open>sortBy === 'created_at' ? new Date(a.created_at || '').getTime() : a[sortBy]\<close>
\<close>

definition sort_value :: "runtime \<Rightarrow> sort_field \<Rightarrow> DreamEntry \<Rightarrow> rat option" where
  "sort_value rt sortBy a =
     (case sortBy of
        Created_at \<Rightarrow> map_option of_int (date_getTime rt (created_or_empty a))
      | Sleep_quality \<Rightarrow> Some (sleep_quality a)
      | Sleep_hours \<Rightarrow> Some (sleep_hours a))"

definition view_cmp :: "runtime \<Rightarrow> sort_field \<Rightarrow> sort_order \<Rightarrow> DreamEntry \<Rightarrow> DreamEntry \<Rightarrow> int" where
  "view_cmp rt sortBy sortOrder a b =
     (let aVal = sort_value rt sortBy a; bVal = sort_value rt sortBy b
      in if sortOrder = Asc then (if js_gt aVal bVal then 1 else -1)
         else (if js_lt aVal bVal then 1 else -1))"

definition entry_matches :: "string \<Rightarrow> DreamEntry \<Rightarrow> bool" where
  "entry_matches searchQuery entry =
     (str_includes (toLowerCase (title entry)) (toLowerCase searchQuery) \<or>
      str_includes (toLowerCase (content entry)) (toLowerCase searchQuery))"

definition filteredAndSortedEntries ::
  "runtime \<Rightarrow> DreamEntry list \<Rightarrow> string \<Rightarrow> sort_field \<Rightarrow> sort_order \<Rightarrow> DreamEntry list" where
  "filteredAndSortedEntries rt entries searchQuery sortBy sortOrder =
     js_sort (view_cmp rt sortBy sortOrder) (filter (entry_matches searchQuery) entries)"



section \<open>Analytics page: chart window\<close>

record ChartPoint =
  date :: string
  quality :: rat
  sleep :: rat
  caffeine :: rat
  stress :: rat

text \<open>
  The comparator \<^verbatim>\<open>new Date(a.created_at || '').getTime() - new Date(b.created_at || '').getTime()\<close>.
  A difference with \<^verbatim>\<open>NaN\<close> is \<^verbatim>\<open>NaN\<close>, which the sort reads as \<open>0\<close>.
\<close>

definition chart_cmp :: "runtime \<Rightarrow> DreamEntry \<Rightarrow> DreamEntry \<Rightarrow> int" where
  "chart_cmp rt a b =
     (case (date_getTime rt (created_or_empty a), date_getTime rt (created_or_empty b)) of
        (Some ta, Some tb) \<Rightarrow> ta - tb
      | _ \<Rightarrow> 0)"

text \<open>\<^verbatim>\<open>xs.slice(-n)\<close>: from index \<open>max (length xs - n) 0\<close> to the end.\<close>

definition slice_last :: "nat \<Rightarrow> 'a list \<Rightarrow> 'a list" where
  "slice_last n xs = drop (length xs - n) xs"

definition chart_point :: "runtime \<Rightarrow> DreamEntry \<Rightarrow> ChartPoint" where
  "chart_point rt entry =
     \<lparr>date = date_label rt (created_or_empty entry),
      quality = sleep_quality entry,
      sleep = sleep_hours entry,
      caffeine = caffeine_intake entry,
      stress = stress_level entry\<rparr>"

definition chartData :: "runtime \<Rightarrow> DreamEntry list \<Rightarrow> ChartPoint list" where
  "chartData rt entries = map (chart_point rt) (slice_last 7 (js_sort (chart_cmp rt) entries))"

text \<open>The time of an entry, for entries whose \<^verbatim>\<open>created_at\<close> the runtime can parse.\<close>

definition has_time :: "runtime \<Rightarrow> DreamEntry \<Rightarrow> bool" where
  "has_time rt e = (date_getTime rt (created_or_empty e) \<noteq> None)"

definition time_of :: "runtime \<Rightarrow> DreamEntry \<Rightarrow> int" where
  "time_of rt e = (case date_getTime rt (created_or_empty e) of Some t \<Rightarrow> t | None \<Rightarrow> 0)"

section \<open>Analytics page: statistics and suggestion\<close>

definition digit_char :: "nat \<Rightarrow> char" where
  "digit_char d = char_of (48 + d)"

fun decimal_digits :: "nat \<Rightarrow> string" where
  "decimal_digits n =
     (if n < 10 then [digit_char n] else decimal_digits (n div 10) @ [digit_char (n mod 10)])"

declare decimal_digits.simps [simp del]

text \<open>
  \<^verbatim>\<open>x.toFixed(1)\<close>, following the steps of the language definition for one
  fraction digit: the sign is split off, \<open>n\<close> is the integer with \<open>n / 10\<close> nearest to
  \<open>x\<close> (the larger one on a tie), its decimal digits are padded to two characters, and
  the point goes before the last one.  (The exponent form that the runtime switches to
  from \<open>10\<^sup>2\<^sup>1\<close> on is outside the range of any mean of stored metrics and is not
  modelled.)
\<close>

definition toFixed1 :: "rat \<Rightarrow> string" where
  "toFixed1 x0 =
     (let s = (if x0 < 0 then ''-'' else []);
          x = (if x0 < 0 then - x0 else x0);
          n = nat \<lfloor>x * 10 + 1 / 2\<rfloor>;
          m = decimal_digits n;
          k = length m;
          m = (if k \<le> 1 then replicate (1 + 1 - k) (CHR ''0'') @ m else m);
          k = (if k \<le> 1 then 1 + 1 else k);
          a = take (k - 1) m;
          b = drop (k - 1) m
      in s @ a @ ''.'' @ b)"

definition is_digit :: "char \<Rightarrow> bool" where
  "is_digit c = (48 \<le> (of_char c :: nat) \<and> (of_char c :: nat) \<le> 57)"

definition digits_value :: "string \<Rightarrow> nat" where
  "digits_value ds = foldl (\<lambda>acc c. 10 * acc + (of_char c - 48)) 0 ds"

text \<open>
  \<^verbatim>\<open>parseFloat\<close> on the decimal literals without exponent: an optional sign, integer
  digits, and an optional point with fraction digits; the longest such prefix is read,
  and \<open>None\<close> (\<^verbatim>\<open>NaN\<close>) is returned when it has no digit.
\<close>

definition parseFloat :: "string \<Rightarrow> rat option" where
  "parseFloat str =
     (let neg = (case str of c # _ \<Rightarrow> c = CHR ''-'' | [] \<Rightarrow> False);
          r = (case str of c # cs \<Rightarrow> (if c = CHR ''-'' \<or> c = CHR ''+'' then cs else str) | [] \<Rightarrow> []);
          ip = takeWhile is_digit r;
          r1 = dropWhile is_digit r;
          fp = (case r1 of c # cs \<Rightarrow> (if c = CHR ''.'' then takeWhile is_digit cs else []) | [] \<Rightarrow> [])
      in if ip = [] \<and> fp = [] then None
         else Some ((if neg then - 1 else 1) *
                    (of_nat (digits_value ip) + of_nat (digits_value fp) / 10 ^ length fp)))"

record Stats =
  avgQuality :: string
  avgSleep :: string
  avgCaffeine :: string
  avgStress :: string
  total :: nat

text \<open>\<^verbatim>\<open>entries.reduce((sum, e) => sum + f(e), 0)\<close>\<close>

definition reduce_sum :: "(DreamEntry \<Rightarrow> rat) \<Rightarrow> DreamEntry list \<Rightarrow> rat" where
  "reduce_sum f entries = foldl (\<lambda>sum e. sum + f e) 0 entries"

definition stats :: "DreamEntry list \<Rightarrow> Stats option" where
  "stats entries =
     (if length entries = 0 then None
      else
        let avgQuality = reduce_sum sleep_quality entries / of_nat (length entries);
            avgSleep = reduce_sum sleep_hours entries / of_nat (length entries);
            avgCaffeine = reduce_sum caffeine_intake entries / of_nat (length entries);
            avgStress = reduce_sum stress_level entries / of_nat (length entries)
        in Some \<lparr>avgQuality = toFixed1 avgQuality,
                  avgSleep = toFixed1 avgSleep,
                  avgCaffeine = toFixed1 avgCaffeine,
                  avgStress = toFixed1 avgStress,
                  total = length entries\<rparr>)"

text \<open>\<^verbatim>\<open>xs.join(sep)\<close>\<close>

fun join :: "string \<Rightarrow> string list \<Rightarrow> string" where
  "join sep [] = []"
| "join sep [x] = x"
| "join sep (x # y # ys) = x @ sep @ join sep (y # ys)"

definition msg_start :: string where
  "msg_start = ''Start tracking your dreams to get personalized suggestions!''"

definition msg_sleep :: string where
  "msg_sleep = ''Try to get more sleep - aim for 7-9 hours per night.''"

definition msg_caffeine :: string where
  "msg_caffeine = ''Consider reducing caffeine intake, especially in the afternoon.''"

definition msg_stress :: string where
  "msg_stress = ''High stress levels detected. Try relaxation techniques before bed.''"

definition msg_quality :: string where
  "msg_quality = ''Your sleep quality could improve. Try maintaining a consistent sleep schedule.''"

definition msg_healthy :: string where
  "msg_healthy = ''Great job! Your sleep patterns look healthy. Keep it up!''"

text \<open>\<^verbatim>\<open>suggestions.push(m)\<close> under a condition.\<close>

definition push_if :: "bool \<Rightarrow> string \<Rightarrow> string list \<Rightarrow> string list" where
  "push_if c m suggestions = (if c then suggestions @ [m] else suggestions)"

definition getSuggestion :: "DreamEntry list \<Rightarrow> string" where
  "getSuggestion entries =
     (case stats entries of
        None \<Rightarrow> msg_start
      | Some st \<Rightarrow>
          let suggestions = [];
              suggestions = push_if (js_lt (parseFloat (avgSleep st)) (Some 7)) msg_sleep suggestions;
              suggestions = push_if (js_gt (parseFloat (avgCaffeine st)) (Some 2)) msg_caffeine suggestions;
              suggestions = push_if (js_gt (parseFloat (avgStress st)) (Some 6)) msg_stress suggestions;
              suggestions = push_if (js_lt (parseFloat (avgQuality st)) (Some 6)) msg_quality suggestions
          in if length suggestions = 0 then msg_healthy else join [CHR 0x20] suggestions)"






section \<open>Analytics page: sort toggle\<close>

record sort_state =
  sortBy :: sort_field
  sortOrder :: sort_order

definition toggleSort :: "sort_field \<Rightarrow> sort_state \<Rightarrow> sort_state" where
  "toggleSort field st =
     (if sortBy st = field
      then st\<lparr>sortOrder := (if sortOrder st = Asc then Desc else Asc)\<rparr>
      else st\<lparr>sortBy := field, sortOrder := Desc\<rparr>)"

text \<open>The list shown for the loaded entries and the query, under a sort state.\<close>

definition displayed :: "runtime \<Rightarrow> DreamEntry list \<Rightarrow> string \<Rightarrow> sort_state \<Rightarrow> DreamEntry list" where
  "displayed rt es q st = filteredAndSortedEntries rt es q (sortBy st) (sortOrder st)"


text \<open>
  The entries are free of ties for a sort key: each has a value (not \<^verbatim>\<open>NaN\<close>) and no two
  have the same.
\<close>

definition tie_free :: "runtime \<Rightarrow> sort_field \<Rightarrow> DreamEntry list \<Rightarrow> bool" where
  "tie_free rt key es =
     (list_all (\<lambda>e. sort_value rt key e \<noteq> None) es \<and> distinct (map (sort_value rt key) es))"

definition key_of :: "runtime \<Rightarrow> sort_field \<Rightarrow> DreamEntry \<Rightarrow> rat" where
  "key_of rt key e = (case sort_value rt key e of Some x \<Rightarrow> x | None \<Rightarrow> 0)"


section \<open>JSON: values, JSON.stringify with indentation, JSON.parse\<close>

text \<open>
  A value of the store's response.  An object is the list of its properties in order.
  A number is kept as the decimal numeral the runtime writes for it: \<open>JNumber m e\<close> is
  \<open>m / 10\<^sup>e\<close>, written with \<open>e\<close> fraction digits (the exponent notation of very large and
  very small numbers is not modelled).
\<close>

datatype json =
    JNull
  | JBool bool
  | JNumber int nat
  | JString string
  | JArray "json list"
  | JObject "(string \<times> json) list"

definition hex_char :: "nat \<Rightarrow> char" where
  "hex_char d = (if d < 10 then char_of (48 + d) else char_of (87 + d))"

text \<open>
  \<^verbatim>\<open>QuoteJSONString\<close>: the quote and the backslash are escaped, the control characters
  get their short escape or \<^verbatim>\<open>\u00XX\<close>, every other character stands for itself.
\<close>

definition escape_char :: "char \<Rightarrow> string" where
  "escape_char c =
     (let n = (of_char c :: nat) in
      if n = 8 then [CHR 0x5C, CHR ''b'']
      else if n = 9 then [CHR 0x5C, CHR ''t'']
      else if n = 10 then [CHR 0x5C, CHR ''n'']
      else if n = 12 then [CHR 0x5C, CHR ''f'']
      else if n = 13 then [CHR 0x5C, CHR ''r'']
      else if n = 34 then [CHR 0x5C, CHR 0x22]
      else if n = 92 then [CHR 0x5C, CHR 0x5C]
      else if n < 32 then [CHR 0x5C, CHR ''u'', CHR ''0'', CHR ''0'', hex_char (n div 16), hex_char (n mod 16)]
      else [c])"

definition quote :: "string \<Rightarrow> string" where
  "quote s = [CHR 0x22] @ concat (map escape_char s) @ [CHR 0x22]"

definition pad_zeros :: "nat \<Rightarrow> string \<Rightarrow> string" where
  "pad_zeros e ds = replicate (e - length ds) (CHR ''0'') @ ds"

definition number_text :: "int \<Rightarrow> nat \<Rightarrow> string" where
  "number_text m e =
     (if m < 0 then ''-'' else []) @
     decimal_digits (nat \<bar>m\<bar> div 10 ^ e) @
     (if e = 0 then [] else ''.'' @ pad_zeros e (decimal_digits (nat \<bar>m\<bar> mod 10 ^ e)))"

text \<open>
  \<^verbatim>\<open>JSON.stringify(value, null, 2)\<close>: \<open>ind\<close> is the current indentation, the gap is two
  spaces.  An empty array or object is written without a line break.
\<close>

definition gap :: string where
  "gap = [CHR 0x20, CHR 0x20]"

fun stringify :: "string \<Rightarrow> json \<Rightarrow> string"
  and stringify_items :: "string \<Rightarrow> json list \<Rightarrow> string list"
  and stringify_members :: "string \<Rightarrow> (string \<times> json) list \<Rightarrow> string list" where
  "stringify ind JNull = ''null''"
| "stringify ind (JBool b) = (if b then ''true'' else ''false'')"
| "stringify ind (JNumber m e) = number_text m e"
| "stringify ind (JString s) = quote s"
| "stringify ind (JArray vs) =
     (if vs = [] then ''[]''
      else ''['' @ [CHR 0x0A] @ (ind @ gap) @
           join ('','' @ [CHR 0x0A] @ (ind @ gap)) (stringify_items (ind @ gap) vs) @
           [CHR 0x0A] @ ind @ '']'')"
| "stringify ind (JObject ms) =
     (if ms = [] then ''{}''
      else ''{'' @ [CHR 0x0A] @ (ind @ gap) @
           join ('','' @ [CHR 0x0A] @ (ind @ gap)) (stringify_members (ind @ gap) ms) @
           [CHR 0x0A] @ ind @ ''}'')"
| "stringify_items ind [] = []"
| "stringify_items ind (v # vs) = stringify ind v # stringify_items ind vs"
| "stringify_members ind [] = []"
| "stringify_members ind ((k, v) # ms) =
     (quote k @ '': '' @ stringify ind v) # stringify_members ind ms"

definition JSON_stringify2 :: "json \<Rightarrow> string" where
  "JSON_stringify2 v = stringify [] v"

text \<open>
  \<^verbatim>\<open>JSON.parse\<close>, by recursive descent.  Each nested call takes one unit of fuel, and the
  entry point gives as much fuel as the text has characters.  \<open>None\<close> is a syntax error.
\<close>

definition is_ws :: "char \<Rightarrow> bool" where
  "is_ws c = (c = CHR 0x20 \<or> c = CHR 0x0A \<or> c = CHR 0x0D \<or> c = CHR 0x09)"

definition skip_ws :: "string \<Rightarrow> string" where
  "skip_ws s = dropWhile is_ws s"

definition hex_value :: "char \<Rightarrow> nat option" where
  "hex_value c =
     (let n = (of_char c :: nat) in
      if 48 \<le> n \<and> n \<le> 57 then Some (n - 48)
      else if 97 \<le> n \<and> n \<le> 102 then Some (n - 87)
      else if 65 \<le> n \<and> n \<le> 70 then Some (n - 55)
      else None)"

text \<open>
  The characters of a string after its opening quote, up to the closing quote.  An escape
  \<^verbatim>\<open>\uXXXX\<close> above code 255 has no character in this model and is rejected.
\<close>

fun parse_string_body :: "string \<Rightarrow> (string \<times> string) option" where
  "parse_string_body [] = None"
| "parse_string_body (c # cs) =
     (if c = CHR 0x22 then Some ([], cs)
      else if c = CHR 0x5C then
        (case cs of
           [] \<Rightarrow> None
         | d # ds \<Rightarrow>
             if d = CHR ''u'' then
               (case ds of
                  h1 # h2 # h3 # h4 # r \<Rightarrow>
                    (case (hex_value h1, hex_value h2, hex_value h3, hex_value h4) of
                       (Some a, Some b, Some x, Some y) \<Rightarrow>
                         if a = 0 \<and> b = 0 then
                           (case parse_string_body r of
                              Some (str, r') \<Rightarrow> Some (char_of (16 * x + y) # str, r')
                            | None \<Rightarrow> None)
                         else None
                     | _ \<Rightarrow> None)
                | _ \<Rightarrow> None)
             else
               (let decoded =
                  (if d = CHR 0x22 then Some (CHR 0x22)
                   else if d = CHR 0x5C then Some (CHR 0x5C)
                   else if d = CHR ''/'' then Some (CHR ''/'')
                   else if d = CHR ''b'' then Some (CHR 0x08)
                   else if d = CHR ''f'' then Some (CHR 0x0C)
                   else if d = CHR ''n'' then Some (CHR 0x0A)
                   else if d = CHR ''r'' then Some (CHR 0x0D)
                   else if d = CHR ''t'' then Some (CHR 0x09)
                   else None)
                in case decoded of
                     None \<Rightarrow> None
                   | Some ch \<Rightarrow>
                       (case parse_string_body ds of
                          Some (str, r') \<Rightarrow> Some (ch # str, r')
                        | None \<Rightarrow> None)))
      else if (of_char c :: nat) < 32 then None
      else
        (case parse_string_body cs of
           Some (str, r') \<Rightarrow> Some (c # str, r')
         | None \<Rightarrow> None))"

text \<open>A number without exponent: sign, integer digits, and fraction digits after a point.\<close>

definition parse_number :: "string \<Rightarrow> (int \<times> nat \<times> string) option" where
  "parse_number s =
     (let neg = (case s of c # _ \<Rightarrow> c = CHR ''-'' | [] \<Rightarrow> False);
          r = (if neg then tl s else s);
          ip = takeWhile is_digit r;
          r1 = dropWhile is_digit r;
          has_frac = (case r1 of c # _ \<Rightarrow> c = CHR ''.'' | [] \<Rightarrow> False);
          fp = (if has_frac then takeWhile is_digit (tl r1) else []);
          r2 = (if has_frac then dropWhile is_digit (tl r1) else r1);
          mag = int (digits_value ip * 10 ^ length fp + digits_value fp)
      in if ip = [] \<or> (has_frac \<and> fp = []) then None
         else Some (if neg then - mag else mag, length fp, r2))"

fun parse_value :: "nat \<Rightarrow> string \<Rightarrow> (json \<times> string) option"
  and parse_elements :: "nat \<Rightarrow> string \<Rightarrow> (json list \<times> string) option"
  and parse_members :: "nat \<Rightarrow> string \<Rightarrow> ((string \<times> json) list \<times> string) option" where
  "parse_value 0 s = None"
| "parse_value (Suc n) s =
     (let t = skip_ws s in
      if startsWith t ''null'' then Some (JNull, drop 4 t)
      else if startsWith t ''true'' then Some (JBool True, drop 4 t)
      else if startsWith t ''false'' then Some (JBool False, drop 5 t)
      else if startsWith t [CHR 0x22] then
        (case parse_string_body (tl t) of
           Some (str, r) \<Rightarrow> Some (JString str, r)
         | None \<Rightarrow> None)
      else if startsWith t ''['' then
        (if startsWith (skip_ws (tl t)) '']'' then Some (JArray [], tl (skip_ws (tl t)))
         else (case parse_elements n (tl t) of
                 Some (vs, r) \<Rightarrow> Some (JArray vs, r)
               | None \<Rightarrow> None))
      else if startsWith t ''{'' then
        (if startsWith (skip_ws (tl t)) ''}'' then Some (JObject [], tl (skip_ws (tl t)))
         else (case parse_members n (tl t) of
                 Some (ms, r) \<Rightarrow> Some (JObject ms, r)
               | None \<Rightarrow> None))
      else
        (case parse_number t of
           Some (m, e, r) \<Rightarrow> Some (JNumber m e, r)
         | None \<Rightarrow> None))"
| "parse_elements 0 s = None"
| "parse_elements (Suc n) s =
     (case parse_value n s of
        None \<Rightarrow> None
      | Some (v, r) \<Rightarrow>
          (let t = skip_ws r in
           if startsWith t '','' then
             (case parse_elements n (tl t) of
                Some (vs, r') \<Rightarrow> Some (v # vs, r')
              | None \<Rightarrow> None)
           else if startsWith t '']'' then Some ([v], tl t)
           else None))"
| "parse_members 0 s = None"
| "parse_members (Suc n) s =
     (let t = skip_ws s in
      if startsWith t [CHR 0x22] then
        (case parse_string_body (tl t) of
           None \<Rightarrow> None
         | Some (k, r) \<Rightarrow>
             (let t1 = skip_ws r in
              if startsWith t1 '':'' then
                (case parse_value n (tl t1) of
                   None \<Rightarrow> None
                 | Some (v, r1) \<Rightarrow>
                     (let t2 = skip_ws r1 in
                      if startsWith t2 '','' then
                        (case parse_members n (tl t2) of
                           Some (ms, r2) \<Rightarrow> Some ((k, v) # ms, r2)
                         | None \<Rightarrow> None)
                      else if startsWith t2 ''}'' then Some ([(k, v)], tl t2)
                      else None))
              else None))
      else None)"

definition JSON_parse :: "string \<Rightarrow> json option" where
  "JSON_parse s =
     (case parse_value (length s) s of
        Some (v, r) \<Rightarrow> (if skip_ws r = [] then Some v else None)
      | None \<Rightarrow> None)"


text \<open>What may follow a number in a text: nothing, or a character that does not continue it.\<close>

definition number_end :: "string \<Rightarrow> bool" where
  "number_end rest = (case rest of [] \<Rightarrow> True | c # _ \<Rightarrow> \<not> is_digit c \<and> c \<noteq> CHR ''.'')"


text \<open>A string of white space only.\<close>

definition blank :: "string \<Rightarrow> bool" where
  "blank w = list_all is_ws w"

text \<open>The characters a JSON value can begin with.\<close>

definition value_start :: "char \<Rightarrow> bool" where
  "value_start c =
     (c = CHR ''n'' \<or> c = CHR ''t'' \<or> c = CHR ''f'' \<or> c = CHR 0x22 \<or> c = CHR ''['' \<or>
      c = CHR ''{'' \<or> c = CHR ''-'' \<or> is_digit c)"

text \<open>Fuel that suffices to parse the text of a value.\<close>

fun fuel_needed :: "json \<Rightarrow> nat"
  and fuel_items :: "json list \<Rightarrow> nat"
  and fuel_members :: "(string \<times> json) list \<Rightarrow> nat" where
  "fuel_needed (JArray vs) = Suc (fuel_items vs)"
| "fuel_needed (JObject ms) = Suc (fuel_members ms)"
| "fuel_needed _ = 1"
| "fuel_items [] = 0"
| "fuel_items (v # vs) = Suc (fuel_needed v + fuel_items vs)"
| "fuel_members [] = 0"
| "fuel_members ((k, v) # ms) = Suc (fuel_needed v + fuel_members ms)"


section \<open>Page workflows\<close>

text \<open>
  A handler of a page changes the page's state and acts on the outside: it shows a toast,
  calls the backend, hands the logged-in user to the application, or offers a file for
  download.  The model returns the new state together with the list of these events in
  the order they happen (writes to the console are left out).  The answers of the backend
  are a parameter.
\<close>

datatype event =
    Prevent_default
  | Toast_error string
  | Toast_success string
  | Auth_getUser
  | Auth_signUp string string string
  | Auth_signInWithPassword string string
  | Select_profile_name string
  | Insert_entry DreamEntry
  | Select_entries string
  | On_login string string
  | Download string string

fun is_network_call :: "event \<Rightarrow> bool" where
  "is_network_call Auth_getUser = True"
| "is_network_call (Auth_signUp e p n) = True"
| "is_network_call (Auth_signInWithPassword e p) = True"
| "is_network_call (Select_profile_name u) = True"
| "is_network_call (Insert_entry e) = True"
| "is_network_call (Select_entries u) = True"
| "is_network_call _ = False"

fun is_error_toast :: "event \<Rightarrow> bool" where
  "is_error_toast (Toast_error m) = True"
| "is_error_toast _ = False"

fun is_download :: "event \<Rightarrow> bool" where
  "is_download (Download f d) = True"
| "is_download _ = False"

text \<open>
  An answer \<^verbatim>\<open>{ data, error }\<close> of the authentication service: the message of the error
  if there is one, and the id of \<^verbatim>\<open>data.user\<close> if there is one.
\<close>

record auth_response =
  auth_error :: "string option"
  auth_user :: "string option"

text \<open>
  The backend: the id of the current user (\<^verbatim>\<open>auth.getUser\<close>), sign-up and sign-in, the
  row of \<^verbatim>\<open>profiles\<close> selected by id with its \<^verbatim>\<open>name\<close> column (\<open>None\<close> when no single
  row comes back), the error message of an insert if it fails, and the error message and
  the rows of a select on \<^verbatim>\<open>dream_entries\<close>.
\<close>

record backend =
  getUser :: "string option"
  signUp :: "string \<Rightarrow> string \<Rightarrow> string \<Rightarrow> auth_response"
  signInWithPassword :: "string \<Rightarrow> string \<Rightarrow> auth_response"
  select_profile :: "string \<Rightarrow> string option option"
  insert_entry :: "DreamEntry \<Rightarrow> string option"
  select_entries :: "string \<Rightarrow> string option \<times> json list option"

text \<open>\<^verbatim>\<open>s || d\<close> on strings: the empty string is falsy.\<close>

definition or_default :: "string \<Rightarrow> string \<Rightarrow> string" where
  "or_default s d = (if s = [] then d else s)"

text \<open>\<^verbatim>\<open>profile?.name || fallback\<close>\<close>

definition profile_name_or :: "string option option \<Rightarrow> string \<Rightarrow> string" where
  "profile_name_or profile fallback =
     (case profile of
        Some (Some n) \<Rightarrow> or_default n fallback
      | _ \<Rightarrow> fallback)"

text \<open>
  \<^verbatim>\<open>s.split(sep)\<close> for a separator of one character.  The result is never empty, and is
  given as its first piece and the list of the others, so that \<^verbatim>\<open>s.split(sep)[0]\<close> is
  the first component.
\<close>

fun js_split :: "char \<Rightarrow> string \<Rightarrow> string \<times> string list" where
  "js_split sep [] = ([], [])"
| "js_split sep (c # cs) =
     (let (w, ws) = js_split sep cs
      in if c = sep then ([], w # ws) else (c # w, ws))"

subsection \<open>Journal page: saving an entry\<close>

text \<open>
  The state of the form.  The sliders hold one-element arrays of which the handler reads
  element \<open>0\<close>; the model keeps that element.
\<close>

record journal_state =
  dreamTitle :: string
  dreamContent :: string
  sleepHours :: rat
  caffeineIntake :: rat
  sleepQuality :: rat
  selectedMood :: "string option"
  stressLevel :: rat
  journal_isLoading :: bool

definition missing_table :: string where
  "missing_table = ''relation '' @ [CHR 0x22] @ ''public.dream_entries'' @ [CHR 0x22] @ '' does not exist''"

definition reset_form :: "journal_state \<Rightarrow> journal_state" where
  "reset_form st =
     st\<lparr>dreamTitle := [], dreamContent := [], sleepHours := 7, caffeineIntake := 0,
        sleepQuality := 5, selectedMood := None, stressLevel := 5\<rparr>"

definition handleSaveEntry :: "backend \<Rightarrow> journal_state \<Rightarrow> journal_state \<times> event list" where
  "handleSaveEntry be st =
     (if dreamTitle st = [] \<or> dreamContent st = []
      then (st, [Toast_error ''Please fill in dream title and content''])
      else
        (case getUser be of
           None \<Rightarrow>
             (st\<lparr>journal_isLoading := False\<rparr>,
              [Auth_getUser, Toast_error ''You must be logged in to save entries''])
         | Some uid \<Rightarrow>
             (let entry = \<lparr>entry_id = None, user_id = uid, title = dreamTitle st,
                           content = dreamContent st, sleep_hours = sleepHours st,
                           caffeine_intake = caffeineIntake st, sleep_quality = sleepQuality st,
                           mood = selectedMood st, stress_level = stressLevel st,
                           created_at = None\<rparr>
              in case insert_entry be entry of
                   Some msg \<Rightarrow>
                     (st\<lparr>journal_isLoading := False\<rparr>,
                      [Auth_getUser, Insert_entry entry,
                       Toast_error
                         (if str_includes msg missing_table
                          then ''Database not set up. Please run the SQL queries in Supabase first.''
                          else or_default msg ''Failed to save entry'')])
                 | None \<Rightarrow>
                     ((reset_form st)\<lparr>journal_isLoading := False\<rparr>,
                      [Auth_getUser, Insert_entry entry, Toast_success ''Dream journal entry saved!'']))))"

subsection \<open>Login page\<close>

record login_state =
  isSignup :: bool
  showPassword :: bool
  form_email :: string
  form_password :: string
  form_name :: string
  login_isLoading :: bool

definition handleSubmit :: "backend \<Rightarrow> login_state \<Rightarrow> login_state \<times> event list" where
  "handleSubmit be st =
     (if form_email st = [] \<or> form_password st = [] \<or> (isSignup st \<and> form_name st = [])
      then (st, [Prevent_default, Toast_error ''Please fill in all fields''])
      else if length (form_password st) < 6
      then (st, [Prevent_default, Toast_error ''Password must be at least 6 characters''])
      else if isSignup st then
        (let r = signUp be (form_email st) (form_password st) (form_name st);
             call = Auth_signUp (form_email st) (form_password st) (form_name st)
         in case auth_error r of
              Some msg \<Rightarrow>
                (st\<lparr>login_isLoading := False\<rparr>,
                 [Prevent_default, call, Toast_error (or_default msg ''An error occurred'')])
            | None \<Rightarrow>
                (case auth_user r of
                   Some uid \<Rightarrow>
                     (st\<lparr>login_isLoading := False\<rparr>,
                      [Prevent_default, call, Toast_success ''Account created successfully!'',
                       On_login (form_email st) (form_name st)])
                 | None \<Rightarrow> (st\<lparr>login_isLoading := False\<rparr>, [Prevent_default, call])))
      else
        (let r = signInWithPassword be (form_email st) (form_password st);
             call = Auth_signInWithPassword (form_email st) (form_password st)
         in case auth_error r of
              Some msg \<Rightarrow>
                (st\<lparr>login_isLoading := False\<rparr>,
                 [Prevent_default, call, Toast_error (or_default msg ''An error occurred'')])
            | None \<Rightarrow>
                (case auth_user r of
                   Some uid \<Rightarrow>
                     (st\<lparr>login_isLoading := False\<rparr>,
                      [Prevent_default, call, Select_profile_name uid, Toast_success ''Welcome back!'',
                       On_login (form_email st)
                         (profile_name_or (select_profile be uid)
                            (fst (js_split (CHR ''@'') (form_email st))))])
                 | None \<Rightarrow> (st\<lparr>login_isLoading := False\<rparr>, [Prevent_default, call]))))"


subsection \<open>Application: the current user\<close>

datatype page = Login | Journal | Analytics | Profile











text \<open>The form of the login page passes the client-side checks.\<close>

definition form_valid :: "login_state \<Rightarrow> bool" where
  "form_valid st =
     (form_email st \<noteq> [] \<and> form_password st \<noteq> [] \<and> (isSignup st \<longrightarrow> form_name st \<noteq> []) \<and>
      6 \<le> length (form_password st))"


subsection \<open>Profile page: export\<close>

definition handleExportData :: "runtime \<Rightarrow> backend \<Rightarrow> event list" where
  "handleExportData rt be =
     (case getUser be of
        None \<Rightarrow> [Auth_getUser, Toast_error ''You must be logged in'']
      | Some uid \<Rightarrow>
          (case select_entries be uid of
             (Some msg, d) \<Rightarrow>
               [Auth_getUser, Select_entries uid, Toast_error (or_default msg ''Failed to export data'')]
           | (None, None) \<Rightarrow>
               [Auth_getUser, Select_entries uid, Toast_error ''No data to export'']
           | (None, Some entries) \<Rightarrow>
               if length entries = 0
               then [Auth_getUser, Select_entries uid, Toast_error ''No data to export'']
               else
                 (let dataStr = JSON_stringify2 (JArray entries)
                  in [Auth_getUser, Select_entries uid,
                      Download (''dreamtracker-backup-'' @ fst (js_split (CHR ''T'') (now_iso rt)) @ ''.json'')
                        dataStr,
                      Toast_success ''Data exported successfully!''])))"


section \<open>Sample data\<close>

text \<open>
  A runtime that knows ten time stamps (in the form the store returns them) with their
  epoch milliseconds and their short labels, and answers \<^verbatim>\<open>NaN\<close> and
  \<^verbatim>\<open>Invalid Date\<close> on every other string; the clock stands at 1 March 2024.
\<close>

definition sample_dates :: "(string \<times> int \<times> string) list" where
  "sample_dates =
     [(''2024-01-01T08:00:00+00:00'', 1704096000000, ''Jan 1''),
      (''2024-01-02T08:00:00+00:00'', 1704182400000, ''Jan 2''),
      (''2024-01-03T08:00:00+00:00'', 1704268800000, ''Jan 3''),
      (''2024-01-04T08:00:00+00:00'', 1704355200000, ''Jan 4''),
      (''2024-01-05T08:00:00+00:00'', 1704441600000, ''Jan 5''),
      (''2024-01-06T08:00:00+00:00'', 1704528000000, ''Jan 6''),
      (''2024-01-07T08:00:00+00:00'', 1704614400000, ''Jan 7''),
      (''2024-01-08T08:00:00+00:00'', 1704700800000, ''Jan 8''),
      (''2024-01-09T08:00:00+00:00'', 1704787200000, ''Jan 9''),
      (''2024-01-10T08:00:00+00:00'', 1704873600000, ''Jan 10'')]"

definition sample_runtime :: runtime where
  "sample_runtime =
     \<lparr>date_getTime = (\<lambda>s. map_option fst (map_of sample_dates s)),
      date_label = (\<lambda>s. case map_of sample_dates s of Some (t, l) \<Rightarrow> l | None \<Rightarrow> ''Invalid Date''),
      now_iso = ''2024-03-01T12:00:00.000Z''\<rparr>"

definition sample_entry ::
  "string \<Rightarrow> string \<Rightarrow> rat \<Rightarrow> rat \<Rightarrow> rat \<Rightarrow> rat \<Rightarrow> string \<Rightarrow> DreamEntry" where
  "sample_entry t c h caf q s d =
     \<lparr>entry_id = None, user_id = ''u1'', title = t, content = c, sleep_hours = h,
      caffeine_intake = caf, sleep_quality = q, mood = None, stress_level = s,
      created_at = Some d\<rparr>"

text \<open>Ten entries in the order the store returns them: newest first.\<close>

definition sample_entries :: "DreamEntry list" where
  "sample_entries =
     [sample_entry ''Snow'' ''Quiet snow on the hills'' (17/2) 1 8 3 ''2024-01-10T08:00:00+00:00'',
      sample_entry ''Stage Fright'' ''Forgot every line on stage'' (11/2) 3 4 9 ''2024-01-09T08:00:00+00:00'',
      sample_entry ''Garden'' ''Flying kites in a garden'' (9) 0 10 1 ''2024-01-08T08:00:00+00:00'',
      sample_entry ''Late Train'' ''Running after a train'' (6) 2 5 6 ''2024-01-07T08:00:00+00:00'',
      sample_entry ''Old House'' ''Rooms I had never seen'' (15/2) 1 7 4 ''2024-01-06T08:00:00+00:00'',
      sample_entry ''Falling'' ''A long fall that never ended'' (13/2) 2 6 5 ''2024-01-05T08:00:00+00:00'',
      sample_entry ''Ocean Swim'' ''Warm water and dolphins'' (7) 0 8 2 ''2024-01-04T08:00:00+00:00'',
      sample_entry ''Exam Hall'' ''I could not find my pen'' (5) 4 4 8 ''2024-01-03T08:00:00+00:00'',
      sample_entry ''Lost in a Forest'' ''Walking through a dark forest'' (6) 3 5 7 ''2024-01-02T08:00:00+00:00'',
      sample_entry ''Flying Through Mountains'' ''I was soaring over a ridge'' (8) 1 9 3 ''2024-01-01T08:00:00+00:00'']"



text \<open>
  A backend with a logged-in user whose profile row is missing.  Sign-in accepts one
  password for the form and the test account's own; the store answers the select with
  two rows.
\<close>

definition sample_rows :: "json list" where
  "sample_rows =
     [JObject [(''id'', JString ''e2''), (''user_id'', JString ''u1''),
               (''title'', JString ''Lost in a Forest''),
               (''content'', JString (''Walking through a '' @ [CHR 0x22] @ ''dark'' @ [CHR 0x22] @ '' forest'')),
               (''sleep_hours'', JNumber 65 1), (''caffeine_intake'', JNumber 3 0),
               (''sleep_quality'', JNumber 5 0), (''mood'', JNull), (''stress_level'', JNumber 7 0),
               (''created_at'', JString ''2024-01-02T08:00:00+00:00'')],
      JObject [(''id'', JString ''e1''), (''user_id'', JString ''u1''),
               (''title'', JString ''Flying Through Mountains''),
               (''content'', JString ''I was soaring over a ridge''),
               (''sleep_hours'', JNumber 8 0), (''caffeine_intake'', JNumber 1 0),
               (''sleep_quality'', JNumber 9 0), (''mood'', JString ''great''),
               (''stress_level'', JNumber 3 0),
               (''created_at'', JString ''2024-01-01T08:00:00+00:00'')]]"

definition sample_backend :: backend where
  "sample_backend =
     \<lparr>getUser = Some ''u1'',
      signUp = (\<lambda>e p n. \<lparr>auth_error = None, auth_user = Some ''u1''\<rparr>),
      signInWithPassword =
        (\<lambda>e p. if p = ''secret1'' \<or> p = ''testpass123''
                then \<lparr>auth_error = None, auth_user = Some ''u1''\<rparr>
                else \<lparr>auth_error = Some ''Invalid login credentials'', auth_user = None\<rparr>),
      select_profile = (\<lambda>u. None),
      insert_entry = (\<lambda>e. None),
      select_entries = (\<lambda>u. (None, Some sample_rows))\<rparr>"

definition empty_backend :: backend where
  "empty_backend = sample_backend\<lparr>select_entries := (\<lambda>u. (None, Some []))\<rparr>"

definition sample_journal :: journal_state where
  "sample_journal =
     \<lparr>dreamTitle = [], dreamContent = ''I was soaring over a ridge'', sleepHours = 7,
      caffeineIntake = 0, sleepQuality = 5, selectedMood = None, stressLevel = 5,
      journal_isLoading = False\<rparr>"

definition sample_login :: login_state where
  "sample_login =
     \<lparr>isSignup = False, showPassword = False, form_email = ''ann@example.org'',
      form_password = ''secret1'', form_name = [], login_isLoading = False\<rparr>"



section \<open>Properties of the runtime operations\<close>



lemma includes_empty: "str_includes s []"
  by (cases s) auto





lemma mset_js_insert: "mset (js_insert cmp x ys) = add_mset x (mset ys)"
  by (induction ys) auto

lemma mset_foldl_js_insert:
  "mset (foldl (\<lambda>acc x. js_insert cmp x acc) acc xs) = mset acc + mset xs"
  by (induction xs arbitrary: acc) (auto simp: mset_js_insert)

lemma mset_js_sort: "mset (js_sort cmp xs) = mset xs"
  by (simp add: js_sort_def mset_foldl_js_insert)


lemma entry_matches_empty: "entry_matches [] e"
  by (simp add: entry_matches_def toLowerCase_def includes_empty)


lemma of_char_digit_char: "d < 10 \<Longrightarrow> (of_char (digit_char d) :: nat) = 48 + d"
  by (simp add: digit_char_def)

lemma is_digit_digit_char: "d < 10 \<Longrightarrow> is_digit (digit_char d)"
  by (simp add: is_digit_def of_char_digit_char)


lemma not_digit_point: "\<not> is_digit (CHR ''.'')"
  by (simp add: is_digit_def)

lemma digit_not_sign: "is_digit c \<Longrightarrow> c \<noteq> CHR ''-'' \<and> c \<noteq> CHR ''+''"
  by (auto simp: is_digit_def)

lemma decimal_digits_digits: "c \<in> set (decimal_digits n) \<Longrightarrow> is_digit c"
proof (induction n arbitrary: c rule: decimal_digits.induct)
  case (1 n)
  show ?case
  proof (cases "n < 10")
    case True
    with "1.prems" show ?thesis
      by (simp add: decimal_digits.simps [of n] is_digit_digit_char)
  next
    case False
    with "1.prems" "1.IH" show ?thesis
      by (auto simp: decimal_digits.simps [of n] is_digit_digit_char)
  qed
qed

lemma decimal_digits_nonempty: "decimal_digits n \<noteq> []"
  by (simp add: decimal_digits.simps [of n])

lemma digits_value_snoc: "digits_value (ds @ [c]) = 10 * digits_value ds + (of_char c - 48)"
  by (simp add: digits_value_def)

lemma digits_value_decimal_digits: "digits_value (decimal_digits n) = n"
proof (induction n rule: decimal_digits.induct)
  case (1 n)
  show ?case
  proof (cases "n < 10")
    case True
    then show ?thesis
      by (simp add: decimal_digits.simps [of n] digits_value_def of_char_digit_char)
  next
    case False
    with "1.IH" show ?thesis
      by (simp add: decimal_digits.simps [of n] digits_value_snoc of_char_digit_char)
  qed
qed













subsection \<open>The sort on a consistent comparator\<close>

lemma set_js_insert: "set (js_insert cmp x ys) = insert x (set ys)"
  by (induction ys) auto

lemma sorted_js_insert:
  "sorted (map f ys) \<Longrightarrow> sorted (map f (js_insert (\<lambda>a b. f a - f b) x ys))"
  by (induction ys) (auto simp: set_js_insert)

lemma filter_js_insert:
  "sorted (map f ys) \<Longrightarrow>
   filter (\<lambda>y. k = f y) (js_insert (\<lambda>a b. f a - f b) x ys) =
   filter (\<lambda>y. k = f y) ys @ (if k = f x then [x] else [])"
proof (induction ys)
  case Nil
  then show ?case by simp
next
  case (Cons y ys)
  show ?case
  proof (cases "f x < f y")
    case True
    have "\<forall>z \<in> set (y # ys). f x < f z"
      using Cons.prems True by auto
    then have "k = f x \<Longrightarrow> filter (\<lambda>y. k = f y) (y # ys) = []"
      by (auto simp: filter_empty_conv)
    with True show ?thesis by auto
  next
    case False
    with Cons show ?thesis by auto
  qed
qed

lemma foldl_js_insert_stable:
  "sorted (map f acc) \<Longrightarrow>
   sorted (map f (foldl (\<lambda>acc x. js_insert (\<lambda>a b. f a - f b) x acc) acc xs)) \<and>
   filter (\<lambda>y. k = f y) (foldl (\<lambda>acc x. js_insert (\<lambda>a b. f a - f b) x acc) acc xs) =
   filter (\<lambda>y. k = f y) acc @ filter (\<lambda>y. k = f y) xs"
proof (induction xs arbitrary: acc)
  case Nil
  then show ?case by simp
next
  case (Cons x xs)
  have "sorted (map f (js_insert (\<lambda>a b. f a - f b) x acc))"
    using Cons.prems by (rule sorted_js_insert)
  from Cons.IH [OF this] show ?case
    by (simp add: filter_js_insert [OF Cons.prems])
qed

lemma js_sort_key: "js_sort (\<lambda>a b. f a - f b) xs = sort_key f (xs :: 'a list)"
  for f :: "'a \<Rightarrow> int"
proof -
  have st: "sorted (map f (js_sort (\<lambda>a b. f a - f b) xs))"
    and fl: "filter (\<lambda>y. k = f y) (js_sort (\<lambda>a b. f a - f b) xs) = filter (\<lambda>y. k = f y) xs" for k
    using foldl_js_insert_stable [where f = f and acc = "[]" and k = k and xs = xs] by (simp_all add: js_sort_def)
  show ?thesis
    by (rule properties_for_sort_key [symmetric]) (simp_all add: mset_js_sort st fl)
qed

lemma js_insert_cong:
  "(\<And>y. y \<in> set ys \<Longrightarrow> cmp x y = cmp' x y) \<Longrightarrow> js_insert cmp x ys = js_insert cmp' x ys"
  by (induction ys) auto

lemma foldl_js_insert_cong:
  "(\<And>a b. a \<in> set acc \<union> set xs \<Longrightarrow> b \<in> set acc \<union> set xs \<Longrightarrow> cmp a b = cmp' a b) \<Longrightarrow>
   foldl (\<lambda>acc x. js_insert cmp x acc) acc xs = foldl (\<lambda>acc x. js_insert cmp' x acc) acc xs"
proof (induction xs arbitrary: acc)
  case Nil
  then show ?case by simp
next
  case (Cons x xs)
  have "js_insert cmp x acc = js_insert cmp' x acc"
    by (rule js_insert_cong) (simp add: Cons.prems)
  moreover have "foldl (\<lambda>acc x. js_insert cmp x acc) (js_insert cmp' x acc) xs =
                 foldl (\<lambda>acc x. js_insert cmp' x acc) (js_insert cmp' x acc) xs"
    by (rule Cons.IH) (auto simp: set_js_insert Cons.prems)
  ultimately show ?case by simp
qed

lemma js_sort_cong:
  "(\<And>a b. a \<in> set xs \<Longrightarrow> b \<in> set xs \<Longrightarrow> cmp a b = cmp' a b) \<Longrightarrow> js_sort cmp xs = js_sort cmp' xs"
  unfolding js_sort_def by (rule foldl_js_insert_cong) simp

lemma chart_cmp_time:
  "has_time rt a \<Longrightarrow> has_time rt b \<Longrightarrow> chart_cmp rt a b = time_of rt a - time_of rt b"
  by (auto simp: has_time_def chart_cmp_def time_of_def)

lemma js_sort_chart:
  assumes "\<forall>e \<in> set es. has_time rt e"
  shows "js_sort (chart_cmp rt) es = sort_key (time_of rt) es"
proof -
  have "js_sort (chart_cmp rt) es = js_sort (\<lambda>a b. time_of rt a - time_of rt b) es"
    by (rule js_sort_cong) (simp add: assms chart_cmp_time)
  then show ?thesis by (simp add: js_sort_key)
qed

lemma length_js_sort: "length (js_sort cmp xs) = length xs"
  by (metis mset_js_sort size_mset)

lemma length_chartData: "length (chartData rt es) = min 7 (length es)"
  by (simp add: chartData_def slice_last_def length_js_sort)


lemma sort_key_window:
  fixes t :: "'a \<Rightarrow> int"
  assumes "distinct (map t es)"
  defines "ws \<equiv> drop (length es - 7) (sort_key t es)"
  shows "set ws \<subseteq> set es"
    and "sorted_wrt (<) (map t ws)"
    and "\<forall>e \<in> set es - set ws. \<forall>w \<in> set ws. t e < t w"
proof -
  let ?ss = "sort_key t es"
  let ?n = "length es - 7"
  have split: "?ss = take ?n ?ss @ ws" by (simp add: ws_def)
  have "mset (map t ?ss) = mset (map t es)" by simp
  then have dist: "distinct (map t ?ss)"
    using assms(1) mset_eq_imp_distinct_iff by blast
  have "sorted (map t ?ss)" by simp
  with dist have strict: "sorted_wrt (<) (map t ?ss)"
    by (simp add: strict_sorted_iff)
  show "set ws \<subseteq> set es"
    unfolding ws_def by (metis set_drop_subset set_sort)
  from strict show "sorted_wrt (<) (map t ws)"
    unfolding ws_def by (simp add: drop_map [symmetric] sorted_wrt_drop)
  have "sorted_wrt (<) (map t (take ?n ?ss) @ map t ws)"
    using strict split by (metis map_append)
  then have lt: "\<forall>a \<in> set (take ?n ?ss). \<forall>w \<in> set ws. t a < t w"
    by (auto simp: sorted_wrt_append)
  have "set ?ss = set (take ?n ?ss) \<union> set ws"
    using split set_append by metis
  then have "set es = set (take ?n ?ss) \<union> set ws"
    by simp
  with lt show "\<forall>e \<in> set es - set ws. \<forall>w \<in> set ws. t e < t w"
    by auto
qed

subsection \<open>Statistics\<close>


subsection \<open>Suggestion\<close>



subsection \<open>Sort toggle\<close>

lemma toggleSort_same:
  "sortBy st = f \<Longrightarrow> toggleSort f st = st\<lparr>sortOrder := (if sortOrder st = Asc then Desc else Asc)\<rparr>"
  by (simp add: toggleSort_def)

lemma toggleSort_twice: "sortBy st = f \<Longrightarrow> toggleSort f (toggleSort f st) = st"
  by (cases "sortOrder st") (simp_all add: toggleSort_def)


subsection \<open>JSON strings\<close>

lemma char_of_of_char_nat: "char_of (of_char c :: nat) = c"
  by simp

lemma of_char_lt_256: "(of_char c :: nat) < 256"
  by (simp add: of_char_def)

lemma hex_value_hex_char: "d < 16 \<Longrightarrow> hex_value (hex_char d) = Some d"
  by (auto simp: hex_value_def hex_char_def Let_def)

lemma char_eq_code: "c = d \<longleftrightarrow> (of_char c :: nat) = of_char d"
  by (metis char_of_char)

lemma parse_string_body_escape:
  "parse_string_body (escape_char c @ rest) =
     (case parse_string_body rest of Some (str, r) \<Rightarrow> Some (c # str, r) | None \<Rightarrow> None)"
proof -
  let ?n = "of_char c :: nat"
  consider "?n = 8" | "?n = 9" | "?n = 10" | "?n = 12" | "?n = 13" | "?n = 34" | "?n = 92"
    | "?n < 32" "?n \<notin> {8, 9, 10, 12, 13}" | "32 \<le> ?n" "?n \<noteq> 34" "?n \<noteq> 92"
    by fastforce
  then show ?thesis
  proof cases
    case 8
    have "?n < 16 * 16" using of_char_lt_256 [of c] by simp
    then have lt: "?n div 16 < 16" "?n mod 16 < 16"
      by (simp_all add: less_mult_imp_div_less)
    have c: "char_of (16 * (?n div 16) + ?n mod 16) = c"
      by (simp add: char_of_of_char_nat)
    have esc: "escape_char c = [CHR 0x5C, CHR ''u'', CHR ''0'', CHR ''0'', hex_char (?n div 16), hex_char (?n mod 16)]"
      using 8 by (auto simp: escape_char_def Let_def)
    have z: "hex_value (CHR ''0'') = Some 0" by (simp add: hex_value_def)
    show ?thesis
      unfolding esc by (simp add: z hex_value_hex_char lt c split: option.splits)
  next
    case 9
    then have "escape_char c = [c]" by (auto simp: escape_char_def Let_def)
    moreover have "c \<noteq> CHR 0x22" "c \<noteq> CHR 0x5C" using 9 by (auto simp: char_eq_code)
    ultimately show ?thesis using 9 by (simp split: option.splits)
  qed (auto simp: escape_char_def Let_def char_eq_code split: option.splits)
qed

lemma parse_string_body_quote:
  "parse_string_body (concat (map escape_char s) @ CHR 0x22 # rest) = Some (s, rest)"
  by (induction s) (simp_all add: parse_string_body_escape)

lemma quote_parse: "parse_string_body (tl (quote s @ rest)) = Some (s, rest)"
  by (simp add: quote_def parse_string_body_quote)


subsection \<open>JSON numbers\<close>

lemma takeWhile_digits:
  "\<forall>c \<in> set ds. is_digit c \<Longrightarrow> rest = [] \<or> \<not> is_digit (hd rest) \<Longrightarrow>
   takeWhile is_digit (ds @ rest) = ds \<and> dropWhile is_digit (ds @ rest) = rest"
  by (cases rest) (auto simp: takeWhile_append2 dropWhile_append2)

lemma is_digit_zero: "is_digit (CHR ''0'')"
  by (simp add: is_digit_def)

lemma digits_value_zeros: "digits_value (replicate k (CHR ''0'') @ ds) = digits_value ds"
proof -
  have "foldl (\<lambda>acc c. 10 * acc + (of_char c - 48)) 0 (replicate k (CHR ''0'')) = (0 :: nat)"
    by (induction k) simp_all
  then show ?thesis by (simp add: digits_value_def)
qed

lemma length_decimal_digits: "0 < e \<Longrightarrow> n < 10 ^ e \<Longrightarrow> length (decimal_digits n) \<le> e"
proof (induction n arbitrary: e rule: decimal_digits.induct)
  case (1 n)
  show ?case
  proof (cases "n < 10")
    case True
    then show ?thesis using "1.prems" by (simp add: decimal_digits.simps [of n])
  next
    case False
    obtain e' where e: "e = Suc e'" using "1.prems"(1) by (cases e) auto
    have "e' \<noteq> 0" using False "1.prems"(2) e by (cases e') auto
    moreover have "n div 10 < 10 ^ e'"
      using "1.prems"(2) e by (simp add: less_mult_imp_div_less mult.commute)
    ultimately have "length (decimal_digits (n div 10)) \<le> e'"
      using "1.IH" [OF False] by simp
    then show ?thesis using False e by (simp add: decimal_digits.simps [of n])
  qed
qed

lemma pad_zeros_props:
  assumes "0 < e" and "n < 10 ^ e"
  shows "length (pad_zeros e (decimal_digits n)) = e"
    and "digits_value (pad_zeros e (decimal_digits n)) = n"
    and "\<forall>c \<in> set (pad_zeros e (decimal_digits n)). is_digit c"
  using length_decimal_digits [OF assms]
  by (auto simp: pad_zeros_def digits_value_zeros digits_value_decimal_digits
      decimal_digits_digits is_digit_zero)

lemma number_end_tail: "number_end rest \<Longrightarrow> rest = [] \<or> \<not> is_digit (hd rest)"
  by (cases rest) (auto simp: number_end_def)

lemma number_end_no_point: "number_end rest \<Longrightarrow> \<not> (case rest of c # _ \<Rightarrow> c = CHR ''.'' | [] \<Rightarrow> False)"
  by (cases rest) (auto simp: number_end_def)

lemma digits_value_Nil: "digits_value [] = 0"
  by (simp add: digits_value_def)

lemma parse_number_shape:
  assumes ip: "ip \<noteq> []" "\<forall>c \<in> set ip. is_digit c"
    and fp: "\<forall>c \<in> set fp. is_digit c"
    and rest: "number_end rest"
  shows "parse_number (ip @ rest) = Some (int (digits_value ip), 0, rest)"
    and "fp \<noteq> [] \<Longrightarrow> parse_number (ip @ CHR ''.'' # fp @ rest) =
           Some (int (digits_value ip * 10 ^ length fp + digits_value fp), length fp, rest)"
proof -
  obtain c cs where eq: "ip = c # cs" using ip(1) by (cases ip) auto
  then have "is_digit c" using ip(2) by simp
  then have c: "c \<noteq> CHR ''-''" using digit_not_sign by blast
  have tw0: "takeWhile is_digit (c # cs @ rest) = c # cs"
       "dropWhile is_digit (c # cs @ rest) = rest"
    using takeWhile_digits [of ip rest] ip(2) number_end_tail [OF rest] unfolding eq by auto
  show "parse_number (ip @ rest) = Some (int (digits_value ip), 0, rest)"
    unfolding parse_number_def eq
    using c tw0 number_end_no_point [OF rest]
    by (simp add: Let_def digits_value_Nil del: takeWhile.simps dropWhile.simps)
  assume ne: "fp \<noteq> []"
  have tw1: "takeWhile is_digit (c # cs @ CHR ''.'' # fp @ rest) = c # cs"
       "dropWhile is_digit (c # cs @ CHR ''.'' # fp @ rest) = CHR ''.'' # fp @ rest"
    using takeWhile_digits [of ip "CHR ''.'' # fp @ rest"] ip(2) not_digit_point unfolding eq by auto
  have tw2: "takeWhile is_digit (fp @ rest) = fp" "dropWhile is_digit (fp @ rest) = rest"
    using takeWhile_digits [of fp rest] fp number_end_tail [OF rest] by auto
  show "parse_number (ip @ CHR ''.'' # fp @ rest) =
           Some (int (digits_value ip * 10 ^ length fp + digits_value fp), length fp, rest)"
    unfolding parse_number_def eq
    using c tw1 tw2 ne
    by (simp add: Let_def del: takeWhile.simps dropWhile.simps)
qed

lemma parse_number_unsigned:
  assumes "number_end rest"
  shows "parse_number (decimal_digits (n div 10 ^ e) @
           (if e = 0 then [] else CHR ''.'' # pad_zeros e (decimal_digits (n mod 10 ^ e))) @ rest)
         = Some (int n, e, rest)"
proof (cases "e = 0")
  case True
  then show ?thesis
    using parse_number_shape(1) [of "decimal_digits n" "[]" rest] assms
    by (simp add: decimal_digits_nonempty decimal_digits_digits digits_value_decimal_digits)
next
  case False
  let ?D = "decimal_digits (n div 10 ^ e)"
  let ?P = "pad_zeros e (decimal_digits (n mod 10 ^ e))"
  have e: "0 < e" using False by simp
  have lt: "n mod 10 ^ e < 10 ^ e" by simp
  note P = pad_zeros_props [OF e lt]
  have Pne: "?P \<noteq> []" using P(1) e by auto
  have val: "digits_value ?D * 10 ^ e + digits_value ?P = n"
    unfolding P(2) digits_value_decimal_digits by (rule div_mult_mod_eq)
  have "parse_number (?D @ CHR ''.'' # ?P @ rest) =
          Some (int (digits_value ?D * 10 ^ length ?P + digits_value ?P), length ?P, rest)"
    by (rule parse_number_shape(2)) (simp_all add: decimal_digits_nonempty decimal_digits_digits P(3) assms Pne)
  then have "parse_number (?D @ CHR ''.'' # ?P @ rest) = Some (int n, e, rest)"
    unfolding P(1) val .
  then show ?thesis
    using False by simp
qed

lemma parse_number_minus:
  "parse_number (CHR ''-'' # s) =
     (case parse_number s of
        Some (m, e, r) \<Rightarrow> if s \<noteq> [] \<and> hd s = CHR ''-'' then parse_number (CHR ''-'' # s) else Some (- m, e, r)
      | None \<Rightarrow> parse_number (CHR ''-'' # s))"
  by (cases s) (auto simp: parse_number_def Let_def split: option.splits)

lemma parse_number_text:
  assumes "number_end rest"
  shows "parse_number (number_text m e @ rest) = Some (m, e, rest)"
proof -
  define D where "D = decimal_digits (nat \<bar>m\<bar> div 10 ^ e)"
  define F where "F = (if e = 0 then [] else CHR ''.'' # pad_zeros e (decimal_digits (nat \<bar>m\<bar> mod 10 ^ e)))"
  have nt: "number_text m e = (if m < 0 then ''-'' else []) @ D @ F"
    by (simp add: number_text_def D_def F_def)
  have u: "parse_number (D @ F @ rest) = Some (int (nat \<bar>m\<bar>), e, rest)"
    unfolding D_def F_def by (rule parse_number_unsigned [OF assms])
  obtain c cs where D: "D = c # cs"
    using decimal_digits_nonempty [of "nat \<bar>m\<bar> div 10 ^ e"] unfolding D_def [symmetric]
    by (cases D) auto
  then have "is_digit c" using decimal_digits_digits [of c "nat \<bar>m\<bar> div 10 ^ e"]
    unfolding D_def [symmetric] by simp
  then have c: "c \<noteq> CHR ''-''" using digit_not_sign by blast
  show ?thesis
  proof (cases "m < 0")
    case False
    then show ?thesis using u by (simp add: nt)
  next
    case True
    have "D @ F @ rest \<noteq> [] \<and> hd (D @ F @ rest) \<noteq> CHR ''-''" using c D by simp
    then have "parse_number (CHR ''-'' # D @ F @ rest) = Some (- int (nat \<bar>m\<bar>), e, rest)"
      using u by (subst parse_number_minus) simp
    then show ?thesis using True by (simp add: nt)
  qed
qed


subsection \<open>JSON values\<close>

lemma skip_ws_blank: "blank w \<Longrightarrow> skip_ws (w @ s) = skip_ws s"
  by (simp add: blank_def skip_ws_def list_all_iff dropWhile_append2)

lemma skip_ws_start: "\<not> is_ws c \<Longrightarrow> skip_ws (c # s) = c # s"
  by (simp add: skip_ws_def)

lemma value_start_not_ws: "value_start c \<Longrightarrow> \<not> is_ws c"
  by (auto simp: value_start_def is_ws_def is_digit_def)

lemma value_start_not_close:
  "value_start c \<Longrightarrow> c \<noteq> CHR '']'' \<and> c \<noteq> CHR ''}'' \<and> c \<noteq> CHR '','' \<and> c \<noteq> CHR '':''"
  by (auto simp: value_start_def is_digit_def)

lemma blank_simps:
  "blank []" "blank (c # w) \<longleftrightarrow> is_ws c \<and> blank w" "blank (u @ w) \<longleftrightarrow> blank u \<and> blank w"
  "blank gap" "is_ws (CHR 0x0A)" "is_ws (CHR 0x20)"
  by (auto simp: blank_def gap_def is_ws_def)

lemma number_text_start: "\<exists>c cs. number_text m e = c # cs \<and> (c = CHR ''-'' \<or> is_digit c)"
proof -
  obtain c cs where D: "decimal_digits (nat \<bar>m\<bar> div 10 ^ e) = c # cs"
    using decimal_digits_nonempty [of "nat \<bar>m\<bar> div 10 ^ e"]
    by (cases "decimal_digits (nat \<bar>m\<bar> div 10 ^ e)") auto
  then have "is_digit c" using decimal_digits_digits [of c "nat \<bar>m\<bar> div 10 ^ e"] by simp
  with D show ?thesis by (cases "m < 0") (simp_all add: number_text_def)
qed

lemma stringify_start: "\<exists>c cs. stringify ind v = c # cs \<and> value_start c"
proof (cases v)
  case (JNumber m e)
  then show ?thesis using number_text_start [of m e] by (auto simp: value_start_def)
qed (auto simp: value_start_def quote_def)

lemma digit_codes:
  "is_digit c \<Longrightarrow> c \<noteq> CHR ''n'' \<and> c \<noteq> CHR ''t'' \<and> c \<noteq> CHR ''f'' \<and> c \<noteq> CHR 0x22 \<and>
     c \<noteq> CHR ''['' \<and> c \<noteq> CHR ''{'' \<and> \<not> is_ws c"
  by (auto simp: is_digit_def is_ws_def)

lemma parse_value_null: "blank w \<Longrightarrow> parse_value (Suc n) (w @ ''null'' @ rest) = Some (JNull, rest)"
  by (simp add: skip_ws_blank skip_ws_start is_ws_def)

lemma parse_value_true: "blank w \<Longrightarrow> parse_value (Suc n) (w @ ''true'' @ rest) = Some (JBool True, rest)"
  by (simp add: skip_ws_blank skip_ws_start is_ws_def)

lemma parse_value_false: "blank w \<Longrightarrow> parse_value (Suc n) (w @ ''false'' @ rest) = Some (JBool False, rest)"
  by (simp add: skip_ws_blank skip_ws_start is_ws_def)

lemma parse_value_string:
  "blank w \<Longrightarrow> parse_value (Suc n) (w @ quote s @ rest) = Some (JString s, rest)"
proof -
  assume w: "blank w"
  have q: "quote s @ rest = CHR 0x22 # tl (quote s @ rest)" by (simp add: quote_def)
  have "skip_ws (w @ quote s @ rest) = CHR 0x22 # tl (quote s @ rest)"
    using w by (subst q) (simp add: skip_ws_blank skip_ws_start is_ws_def)
  then show ?thesis
    by (simp add: quote_parse)
qed

lemma parse_value_number:
  assumes "blank w" and "number_end rest"
  shows "parse_value (Suc n) (w @ number_text m e @ rest) = Some (JNumber m e, rest)"
proof -
  obtain c cs where nt: "number_text m e = c # cs" and c: "c = CHR ''-'' \<or> is_digit c"
    using number_text_start by blast
  have "c \<noteq> CHR ''n'' \<and> c \<noteq> CHR ''t'' \<and> c \<noteq> CHR ''f'' \<and> c \<noteq> CHR 0x22 \<and>
     c \<noteq> CHR ''['' \<and> c \<noteq> CHR ''{'' \<and> \<not> is_ws c"
  proof (cases "c = CHR ''-''")
    case True
    then show ?thesis by (simp add: is_ws_def)
  next
    case False
    with c have "is_digit c" by simp
    then show ?thesis by (rule digit_codes)
  qed
  then have c': "c \<noteq> CHR ''n''" "c \<noteq> CHR ''t''" "c \<noteq> CHR ''f''" "c \<noteq> CHR 0x22"
      "c \<noteq> CHR ''[''" "c \<noteq> CHR ''{''" "\<not> is_ws c"
    by simp_all
  have sk: "skip_ws (w @ number_text m e @ rest) = c # cs @ rest"
    using assms(1) c'(7) by (simp add: skip_ws_blank skip_ws_start nt)
  have "parse_number (c # cs @ rest) = Some (m, e, rest)"
    using parse_number_text [OF assms(2), of m e] by (simp add: nt)
  then show ?thesis
    using c' by (simp add: sk)
qed

lemma parse_value_open_array:
  assumes "blank w"
  shows "parse_value (Suc n) (w @ CHR ''['' # body) =
     (if startsWith (skip_ws body) '']'' then Some (JArray [], tl (skip_ws body))
      else (case parse_elements n body of Some (vs, r) \<Rightarrow> Some (JArray vs, r) | None \<Rightarrow> None))"
  using assms by (simp add: skip_ws_blank skip_ws_start is_ws_def)

lemma parse_value_open_object:
  assumes "blank w"
  shows "parse_value (Suc n) (w @ CHR ''{'' # body) =
     (if startsWith (skip_ws body) ''}'' then Some (JObject [], tl (skip_ws body))
      else (case parse_members n body of Some (ms, r) \<Rightarrow> Some (JObject ms, r) | None \<Rightarrow> None))"
  using assms by (simp add: skip_ws_blank skip_ws_start is_ws_def)


lemma join_items_start:
  assumes "vs \<noteq> []"
  shows "\<exists>c cs. join sep (stringify_items ind vs) = c # cs \<and> value_start c"
proof (cases vs)
  case Nil
  then show ?thesis using assms by simp
next
  case (Cons v vs')
  obtain c cs where "stringify ind v = c # cs" "value_start c" using stringify_start by blast
  then show ?thesis using Cons by (cases vs') auto
qed

lemma join_members_start:
  assumes "ms \<noteq> []"
  shows "\<exists>cs. join sep (stringify_members ind ms) = CHR 0x22 # cs"
proof (cases ms)
  case Nil
  then show ?thesis using assms by simp
next
  case (Cons m ms')
  obtain k v where m: "m = (k, v)" by (cases m)
  show ?thesis using Cons m by (cases ms') (auto simp: quote_def)
qed

lemma number_end_simps:
  "number_end (CHR 0x0A # s)" "number_end (CHR '','' # s)" "number_end []"
  by (simp_all add: number_end_def is_digit_def)

lemma parse_roundtrip_mutual:
  "(blank ind \<longrightarrow> (\<forall>n w rest. blank w \<longrightarrow> number_end rest \<longrightarrow> fuel_needed v \<le> n \<longrightarrow>
       parse_value n (w @ stringify ind v @ rest) = Some (v, rest)))"
  "(blank ind \<longrightarrow> vs \<noteq> [] \<longrightarrow> (\<forall>n w cl rest. blank w \<longrightarrow> blank cl \<longrightarrow> fuel_items vs \<le> n \<longrightarrow>
       parse_elements n (w @ join (CHR '','' # CHR 0x0A # ind) (stringify_items ind vs) @
                         CHR 0x0A # cl @ CHR '']'' # rest) = Some (vs, rest)))"
  "(blank ind \<longrightarrow> ms \<noteq> [] \<longrightarrow> (\<forall>n w cl rest. blank w \<longrightarrow> blank cl \<longrightarrow> fuel_members ms \<le> n \<longrightarrow>
       parse_members n (w @ join (CHR '','' # CHR 0x0A # ind) (stringify_members ind ms) @
                        CHR 0x0A # cl @ CHR ''}'' # rest) = Some (ms, rest)))"
proof (induction ind v and ind vs and ind ms rule: stringify_stringify_items_stringify_members.induct)
  case (1 ind)
  show ?case
  proof (intro impI allI)
    fix n w rest
    assume "blank w" "fuel_needed JNull \<le> n"
    then obtain n' where "n = Suc n'" by (cases n) auto
    then show "parse_value n (w @ stringify ind JNull @ rest) = Some (JNull, rest)"
      using \<open>blank w\<close> parse_value_null by simp
  qed
next
  case (2 ind b)
  show ?case
  proof (intro impI allI)
    fix n w rest
    assume "blank w" "fuel_needed (JBool b) \<le> n"
    then obtain n' where "n = Suc n'" by (cases n) auto
    then show "parse_value n (w @ stringify ind (JBool b) @ rest) = Some (JBool b, rest)"
      using \<open>blank w\<close> parse_value_true [of w n' rest] parse_value_false [of w n' rest] by simp
  qed
next
  case (3 ind m e)
  show ?case
  proof (intro impI allI)
    fix n w rest
    assume "blank w" "number_end rest" "fuel_needed (JNumber m e) \<le> n"
    then obtain n' where "n = Suc n'" by (cases n) auto
    then show "parse_value n (w @ stringify ind (JNumber m e) @ rest) = Some (JNumber m e, rest)"
      using \<open>blank w\<close> \<open>number_end rest\<close> parse_value_number [of w rest n' m e] by simp
  qed
next
  case (4 ind s)
  show ?case
  proof (intro impI allI)
    fix n w rest
    assume "blank w" "fuel_needed (JString s) \<le> n"
    then obtain n' where "n = Suc n'" by (cases n) auto
    then show "parse_value n (w @ stringify ind (JString s) @ rest) = Some (JString s, rest)"
      using \<open>blank w\<close> parse_value_string [of w n' s rest] by simp
  qed
next
  case (5 ind vs)
  show ?case
  proof (intro impI allI)
    fix n w rest
    assume ind: "blank ind" and w: "blank w" and fuel: "fuel_needed (JArray vs) \<le> n"
    then obtain n' where n: "n = Suc n'" and fuel': "fuel_items vs \<le> n'" by (cases n) auto
    show "parse_value n (w @ stringify ind (JArray vs) @ rest) = Some (JArray vs, rest)"
    proof (cases "vs = []")
      case True
      have "parse_value (Suc n') (w @ CHR ''['' # CHR '']'' # rest) = Some (JArray [], rest)"
        by (subst parse_value_open_array [OF w]) (simp add: skip_ws_start is_ws_def)
      then show ?thesis
        using True n by simp
    next
      case False
      let ?sep = "CHR '','' # CHR 0x0A # (ind @ gap)"
      let ?items = "join ?sep (stringify_items (ind @ gap) vs)"
      let ?body = "(CHR 0x0A # ind @ gap) @ ?items @ CHR 0x0A # ind @ CHR '']'' # rest"
      have doc: "w @ stringify ind (JArray vs) @ rest = w @ CHR ''['' # ?body"
        using False by simp
      obtain c cs where st: "?items = c # cs" and c: "value_start c"
        using join_items_start [OF False] by blast
      have "skip_ws ?body = c # cs @ CHR 0x0A # ind @ CHR '']'' # rest"
        using ind c value_start_not_ws [of c]
        by (subst skip_ws_blank) (simp_all add: blank_simps st skip_ws_start)
      then have no_close: "\<not> startsWith (skip_ws ?body) '']''"
        using value_start_not_close [OF c] by simp
      have "parse_elements n' ?body = Some (vs, rest)"
        by (rule "5.IH" [OF False, rule_format]) (simp_all add: blank_simps ind False fuel')
      then show ?thesis
        unfolding doc n parse_value_open_array [OF w] using no_close by simp
    qed
  qed
next
  case (6 ind ms)
  show ?case
  proof (intro impI allI)
    fix n w rest
    assume ind: "blank ind" and w: "blank w" and fuel: "fuel_needed (JObject ms) \<le> n"
    then obtain n' where n: "n = Suc n'" and fuel': "fuel_members ms \<le> n'" by (cases n) auto
    show "parse_value n (w @ stringify ind (JObject ms) @ rest) = Some (JObject ms, rest)"
    proof (cases "ms = []")
      case True
      have "parse_value (Suc n') (w @ CHR ''{'' # CHR ''}'' # rest) = Some (JObject [], rest)"
        by (subst parse_value_open_object [OF w]) (simp add: skip_ws_start is_ws_def)
      then show ?thesis
        using True n by simp
    next
      case False
      let ?sep = "CHR '','' # CHR 0x0A # (ind @ gap)"
      let ?items = "join ?sep (stringify_members (ind @ gap) ms)"
      let ?body = "(CHR 0x0A # ind @ gap) @ ?items @ CHR 0x0A # ind @ CHR ''}'' # rest"
      have doc: "w @ stringify ind (JObject ms) @ rest = w @ CHR ''{'' # ?body"
        using False by simp
      obtain cs where st: "?items = CHR 0x22 # cs"
        using join_members_start [OF False] by blast
      have "skip_ws ?body = CHR 0x22 # cs @ CHR 0x0A # ind @ CHR ''}'' # rest"
        using ind
        by (subst skip_ws_blank) (simp_all add: blank_simps st skip_ws_start is_ws_def)
      then have no_close: "\<not> startsWith (skip_ws ?body) ''}''"
        by simp
      have "parse_members n' ?body = Some (ms, rest)"
        by (rule "6.IH" [OF False, rule_format]) (simp_all add: blank_simps ind False fuel')
      then show ?thesis
        unfolding doc n parse_value_open_object [OF w] using no_close by simp
    qed
  qed
next
  case (7 ind)
  show ?case by simp
next
  case (8 ind v vs)
  show ?case
  proof (intro impI allI)
    fix n w cl rest
    assume ind: "blank ind" and w: "blank w" and cl: "blank cl"
      and fuel: "fuel_items (v # vs) \<le> n"
    then obtain n' where n: "n = Suc n'" and fv: "fuel_needed v \<le> n'" and fvs: "fuel_items vs \<le> n'"
      by (cases n) auto
    let ?sep = "CHR '','' # CHR 0x0A # ind"
    let ?close = "CHR 0x0A # cl @ CHR '']'' # rest"
    show "parse_elements n (w @ join ?sep (stringify_items ind (v # vs)) @ ?close) = Some (v # vs, rest)"
    proof (cases "vs = []")
      case True
      have "parse_value n' (w @ stringify ind v @ ?close) = Some (v, ?close)"
        by (rule "8.IH"(1) [rule_format]) (simp_all add: number_end_simps ind w fv)
      moreover have "skip_ws ?close = CHR '']'' # rest"
        using cl skip_ws_blank [of "CHR 0x0A # cl" "CHR '']'' # rest"]
        by (simp add: blank_simps skip_ws_start is_ws_def)
      ultimately show ?thesis
        using True n by simp
    next
      case False
      obtain v' vs' where vs: "vs = v' # vs'" using False by (cases vs) auto
      let ?more = "join ?sep (stringify_items ind vs) @ ?close"
      have doc: "w @ join ?sep (stringify_items ind (v # vs)) @ ?close =
                  w @ stringify ind v @ CHR '','' # (CHR 0x0A # ind) @ ?more"
        using vs by simp
      have pv: "parse_value n' (w @ stringify ind v @ CHR '','' # (CHR 0x0A # ind) @ ?more) =
                  Some (v, CHR '','' # (CHR 0x0A # ind) @ ?more)"
        by (rule "8.IH"(1) [rule_format]) (simp_all add: number_end_simps ind w fv)
      have sk: "skip_ws (CHR '','' # (CHR 0x0A # ind) @ ?more) = CHR '','' # (CHR 0x0A # ind) @ ?more"
        by (rule skip_ws_start) (simp add: is_ws_def)
      have pe: "parse_elements n' ((CHR 0x0A # ind) @ ?more) = Some (vs, rest)"
        by (rule "8.IH"(2) [rule_format]) (simp_all add: blank_simps ind False cl fvs)
      show ?thesis
        unfolding doc n parse_elements.simps pv
        by (simp add: sk pe Let_def del: append_Cons)
    qed
  qed
next
  case (9 ind)
  show ?case by simp
next
  case (10 ind k v ms)
  show ?case
  proof (intro impI allI)
    fix n w cl rest
    assume ind: "blank ind" and w: "blank w" and cl: "blank cl"
      and fuel: "fuel_members ((k, v) # ms) \<le> n"
    then obtain n' where n: "n = Suc n'" and fv: "fuel_needed v \<le> n'" and fms: "fuel_members ms \<le> n'"
      by (cases n) auto
    let ?sep = "CHR '','' # CHR 0x0A # ind"
    let ?close = "CHR 0x0A # cl @ CHR ''}'' # rest"
    have key: "\<And>tail. skip_ws (w @ quote k @ tail) = CHR 0x22 # tl (quote k @ tail)"
    proof -
      fix tail
      have q: "quote k @ tail = CHR 0x22 # tl (quote k @ tail)" by (simp add: quote_def)
      show "skip_ws (w @ quote k @ tail) = CHR 0x22 # tl (quote k @ tail)"
        using w by (subst q) (simp add: skip_ws_blank skip_ws_start is_ws_def)
    qed
    have colon: "\<And>tail. skip_ws (CHR '':'' # tail) = CHR '':'' # tail"
      by (rule skip_ws_start) (simp add: is_ws_def)
    show "parse_members n (w @ join ?sep (stringify_members ind ((k, v) # ms)) @ ?close) = Some ((k, v) # ms, rest)"
    proof (cases "ms = []")
      case True
      have doc: "w @ join ?sep (stringify_members ind ((k, v) # ms)) @ ?close =
                  w @ quote k @ CHR '':'' # [CHR 0x20] @ stringify ind v @ ?close"
        using True by simp
      have pv: "parse_value n' ([CHR 0x20] @ stringify ind v @ ?close) = Some (v, ?close)"
        by (rule "10.IH"(1) [rule_format]) (simp_all add: number_end_simps blank_simps ind fv)
      have sk: "skip_ws ?close = CHR ''}'' # rest"
        using cl skip_ws_blank [of "CHR 0x0A # cl" "CHR ''}'' # rest"]
        by (simp add: blank_simps skip_ws_start is_ws_def)
      show ?thesis
        unfolding doc n parse_members.simps key
        by (simp add: quote_parse colon pv sk Let_def True del: append_Cons)
    next
      case False
      obtain k' v' ms' where ms: "ms = (k', v') # ms'" using False by (cases ms) auto
      let ?more = "join ?sep (stringify_members ind ms) @ ?close"
      have doc: "w @ join ?sep (stringify_members ind ((k, v) # ms)) @ ?close =
                  w @ quote k @ CHR '':'' # [CHR 0x20] @ stringify ind v @ CHR '','' # (CHR 0x0A # ind) @ ?more"
        using ms by simp
      have pv: "parse_value n' ([CHR 0x20] @ stringify ind v @ CHR '','' # (CHR 0x0A # ind) @ ?more) =
                  Some (v, CHR '','' # (CHR 0x0A # ind) @ ?more)"
        by (rule "10.IH"(1) [rule_format]) (simp_all add: number_end_simps blank_simps ind fv)
      have sk: "skip_ws (CHR '','' # (CHR 0x0A # ind) @ ?more) = CHR '','' # (CHR 0x0A # ind) @ ?more"
        by (rule skip_ws_start) (simp add: is_ws_def)
      have pm: "parse_members n' ((CHR 0x0A # ind) @ ?more) = Some (ms, rest)"
        by (rule "10.IH"(2) [rule_format]) (simp_all add: blank_simps ind False cl fms)
      show ?thesis
        unfolding doc n parse_members.simps key
        by (simp add: quote_parse colon pv sk pm Let_def del: append_Cons)
    qed
  qed
qed


lemma fuel_bound_mutual:
  "fuel_needed v \<le> length (stringify ind v)"
  "\<forall>sep. sep \<noteq> [] \<longrightarrow> fuel_items vs \<le> length (join sep (stringify_items ind vs)) + 1"
  "\<forall>sep. sep \<noteq> [] \<longrightarrow> fuel_members ms \<le> length (join sep (stringify_members ind ms)) + 1"
proof (induction ind v and ind vs and ind ms rule: stringify_stringify_items_stringify_members.induct)
  case (3 ind m e)
  obtain c cs where "number_text m e = c # cs" using number_text_start by blast
  then show ?case by simp
next
  case (4 ind s)
  show ?case by (simp add: quote_def)
next
  case (5 ind vs)
  show ?case
  proof (cases "vs = []")
    case True
    then show ?thesis by simp
  next
    case False
    have "fuel_items vs \<le> length (join (CHR '','' # CHR 0x0A # ind @ gap) (stringify_items (ind @ gap) vs)) + 1"
      using "5.IH" [OF False] by simp
    then show ?thesis using False by simp
  qed
next
  case (6 ind ms)
  show ?case
  proof (cases "ms = []")
    case True
    then show ?thesis by simp
  next
    case False
    have "fuel_members ms \<le> length (join (CHR '','' # CHR 0x0A # ind @ gap) (stringify_members (ind @ gap) ms)) + 1"
      using "6.IH" [OF False] by simp
    then show ?thesis using False by simp
  qed
next
  case (8 ind v vs)
  show ?case
  proof (intro allI impI)
    fix sep :: string
    assume sep: "sep \<noteq> []"
    then have len: "1 \<le> length sep" by (cases sep) auto
    show "fuel_items (v # vs) \<le> length (join sep (stringify_items ind (v # vs))) + 1"
    proof (cases vs)
      case Nil
      then show ?thesis using "8.IH"(1) by simp
    next
      case (Cons v' vs')
      have "fuel_items vs \<le> length (join sep (stringify_items ind vs)) + 1"
        using "8.IH"(2) sep by blast
      then show ?thesis using "8.IH"(1) len Cons by simp
    qed
  qed
next
  case (10 ind k v ms)
  show ?case
  proof (intro allI impI)
    fix sep :: string
    assume sep: "sep \<noteq> []"
    then have len: "1 \<le> length sep" by (cases sep) auto
    show "fuel_members ((k, v) # ms) \<le> length (join sep (stringify_members ind ((k, v) # ms))) + 1"
    proof (cases ms)
      case Nil
      then show ?thesis using "10.IH"(1) by simp
    next
      case (Cons m' ms')
      obtain k' v' where m': "m' = (k', v')" by (cases m')
      have "fuel_members ms \<le> length (join sep (stringify_members ind ms)) + 1"
        using "10.IH"(2) sep by blast
      then show ?thesis using "10.IH"(1) len Cons m' by simp
    qed
  qed
qed simp_all

lemma JSON_roundtrip: "JSON_parse (JSON_stringify2 v) = Some v"
proof -
  have "parse_value (length (stringify [] v)) ([] @ stringify [] v @ []) = Some (v, [])"
    by (rule parse_roundtrip_mutual(1) [rule_format])
       (simp_all add: blank_simps number_end_simps fuel_bound_mutual(1))
  then show ?thesis
    by (simp add: JSON_parse_def JSON_stringify2_def skip_ws_def)
qed


lemma js_split_first: "fst (js_split sep s) = takeWhile (\<lambda>c. c \<noteq> sep) s"
  by (induction s) (auto simp: Let_def split: prod.splits)




subsection \<open>The sort on keys without ties\<close>

lemma sorted_js_insert_strict:
  fixes g :: "'a \<Rightarrow> 'b::linorder"
  assumes "sorted (map g ys)"
    and "\<And>y. y \<in> set ys \<Longrightarrow> (cmp x y < 0 \<longleftrightarrow> g x < g y)"
  shows "sorted (map g (js_insert cmp x ys))"
  using assms
proof (induction ys)
  case Nil
  then show ?case by simp
next
  case (Cons y ys)
  show ?case
  proof (cases "cmp x y < 0")
    case True
    then have "g x < g y" using Cons.prems(2) by simp
    then show ?thesis using True Cons.prems(1) by auto
  next
    case False
    then have "g y \<le> g x" using Cons.prems(2) [of y] by auto
    moreover have "sorted (map g (js_insert cmp x ys))"
      using Cons.IH Cons.prems by auto
    ultimately show ?thesis using False Cons.prems(1) by (auto simp: set_js_insert)
  qed
qed

lemma sorted_foldl_js_insert_strict:
  fixes g :: "'a \<Rightarrow> 'b::linorder"
  assumes "sorted (map g acc)"
    and "distinct (acc @ xs)"
    and "\<And>a b. a \<in> set acc \<union> set xs \<Longrightarrow> b \<in> set acc \<union> set xs \<Longrightarrow> a \<noteq> b \<Longrightarrow>
           (cmp a b < 0 \<longleftrightarrow> g a < g b)"
  shows "sorted (map g (foldl (\<lambda>acc x. js_insert cmp x acc) acc xs))"
  using assms
proof (induction xs arbitrary: acc)
  case Nil
  then show ?case by simp
next
  case (Cons x xs)
  have "sorted (map g (js_insert cmp x acc))"
  proof (rule sorted_js_insert_strict [OF Cons.prems(1)])
    fix y assume "y \<in> set acc"
    then show "cmp x y < 0 \<longleftrightarrow> g x < g y"
      using Cons.prems(2) by (intro Cons.prems(3)) auto
  qed
  moreover have "distinct (js_insert cmp x acc @ xs)"
    using Cons.prems(2) by (auto simp: set_js_insert distinct_count_atmost_1 mset_js_insert
        simp flip: count_mset)
  moreover have "cmp a b < 0 \<longleftrightarrow> g a < g b"
    if "a \<in> set (js_insert cmp x acc) \<union> set xs" "b \<in> set (js_insert cmp x acc) \<union> set xs" "a \<noteq> b"
    for a b
  proof (rule Cons.prems(3))
    show "a \<in> set acc \<union> set (x # xs)" using that(1) by (auto simp: set_js_insert)
    show "b \<in> set acc \<union> set (x # xs)" using that(2) by (auto simp: set_js_insert)
    show "a \<noteq> b" by (rule that(3))
  qed
  ultimately have "sorted (map g (foldl (\<lambda>acc x. js_insert cmp x acc) (js_insert cmp x acc) xs))"
    by (rule Cons.IH)
  then show ?case by simp
qed

lemma js_sort_strict:
  fixes g :: "'a \<Rightarrow> 'b::linorder"
  assumes dist: "distinct (map g xs)"
    and cmp: "\<And>a b. a \<in> set xs \<Longrightarrow> b \<in> set xs \<Longrightarrow> a \<noteq> b \<Longrightarrow> (cmp a b < 0 \<longleftrightarrow> g a < g b)"
  shows "js_sort cmp xs = sort_key g xs"
proof -
  let ?ys = "js_sort cmp xs"
  have dx: "distinct xs" using dist by (simp add: distinct_map)
  have inj: "inj_on g (set xs)" using dist by (simp add: distinct_map)
  have ms: "mset ?ys = mset xs" by (rule mset_js_sort)
  then have set: "set ?ys = set xs" by (rule mset_eq_setD)
  have "sorted (map g ?ys)"
    unfolding js_sort_def
    by (rule sorted_foldl_js_insert_strict) (simp_all add: dx cmp)
  moreover have "mset (map g ?ys) = mset (map g xs)" using ms by simp
  then have "distinct (map g ?ys)" using dist mset_eq_imp_distinct_iff by blast
  moreover have "sorted (map g (sort_key g xs))" by simp
  moreover have "distinct (map g (sort_key g xs))"
    using dist by (metis distinct_map distinct_sort set_sort)
  moreover have "set (map g ?ys) = set (map g (sort_key g xs))" using set by simp
  ultimately have "map g ?ys = map g (sort_key g xs)"
    by (rule sorted_distinct_set_unique)
  then show ?thesis
    by (rule map_inj_on) (simp add: set inj)
qed

lemma sort_key_uminus:
  fixes f :: "'a \<Rightarrow> rat"
  assumes "distinct (map f xs)"
  shows "sort_key (\<lambda>a. - f a) xs = rev (sort_key f xs)"
proof -
  let ?g = "\<lambda>a. - f a"
  let ?zs = "rev (sort_key f xs)"
  have inj: "inj_on ?g (set xs)" using assms by (auto simp: distinct_map inj_on_def)
  have dg: "distinct (map ?g xs)" using assms by (auto simp: distinct_map inj_on_def)
  have "sorted (map f (sort_key f xs))" by simp
  then have "sorted_wrt (\<lambda>a b. f a \<le> f b) (sort_key f xs)" by (simp add: sorted_map)
  then have "sorted_wrt (\<lambda>a b. ?g a \<le> ?g b) ?zs" by (simp add: sorted_wrt_rev)
  then have "sorted (map ?g ?zs)" by (simp add: sorted_map)
  moreover have "distinct (map ?g ?zs)"
    using dg by (metis distinct_map distinct_rev distinct_sort set_rev set_sort)
  moreover have "sorted (map ?g (sort_key ?g xs))" by simp
  moreover have "distinct (map ?g (sort_key ?g xs))"
    using dg by (metis distinct_map distinct_sort set_sort)
  moreover have "set (map ?g (sort_key ?g xs)) = set (map ?g ?zs)" by simp
  ultimately have "map ?g (sort_key ?g xs) = map ?g ?zs"
    by (metis sorted_distinct_set_unique)
  then show ?thesis
    by (rule map_inj_on) (simp add: inj)
qed

lemma tie_free_filter: "tie_free rt key es \<Longrightarrow> tie_free rt key (filter P es)"
  by (auto simp: tie_free_def list_all_iff distinct_map_filter)

lemma view_tie_free:
  assumes "tie_free rt key es"
  shows "js_sort (view_cmp rt key Asc) es = sort_key (key_of rt key) es"
    and "js_sort (view_cmp rt key Desc) es = rev (sort_key (key_of rt key) es)"
proof -
  have some: "\<And>e. e \<in> set es \<Longrightarrow> sort_value rt key e = Some (key_of rt key e)"
    using assms by (auto simp: tie_free_def list_all_iff key_of_def)
  have inj: "inj_on (sort_value rt key) (set es)" and d: "distinct es"
    using assms by (auto simp: tie_free_def distinct_map)
  have ne: "\<And>a b. a \<in> set es \<Longrightarrow> b \<in> set es \<Longrightarrow> a \<noteq> b \<Longrightarrow> key_of rt key a \<noteq> key_of rt key b"
    using inj some by (metis inj_onD)
  have dk: "distinct (map (key_of rt key) es)"
    using d ne by (auto simp: distinct_map inj_on_def)
  show "js_sort (view_cmp rt key Asc) es = sort_key (key_of rt key) es"
  proof (rule js_sort_strict [OF dk])
    fix a b assume "a \<in> set es" "b \<in> set es" "a \<noteq> b"
    then show "view_cmp rt key Asc a b < 0 \<longleftrightarrow> key_of rt key a < key_of rt key b"
      using some ne [of a b] by (auto simp: view_cmp_def Let_def)
  qed
  have dn: "distinct (map (\<lambda>a. - key_of rt key a) es)"
    using dk by (auto simp: distinct_map inj_on_def)
  have "js_sort (view_cmp rt key Desc) es = sort_key (\<lambda>a. - key_of rt key a) es"
  proof (rule js_sort_strict [OF dn])
    fix a b assume "a \<in> set es" "b \<in> set es" "a \<noteq> b"
    then show "view_cmp rt key Desc a b < 0 \<longleftrightarrow> - key_of rt key a < - key_of rt key b"
      using some ne [of a b] by (auto simp: view_cmp_def Let_def)
  qed
  then show "js_sort (view_cmp rt key Desc) es = rev (sort_key (key_of rt key) es)"
    by (simp add: sort_key_uminus [OF dk])
qed

lemma toggle_reverses_tie_free:
  assumes "tie_free rt (sortBy st) es"
  shows "displayed rt es q (toggleSort (sortBy st) st) = rev (displayed rt es q st)"
proof -
  note v = view_tie_free [OF tie_free_filter [OF assms, of "entry_matches q"]]
  show ?thesis
    by (cases "sortOrder st")
       (simp_all add: displayed_def toggleSort_def filteredAndSortedEntries_def v)
qed

section \<open>The analytics claims\<close>



lemma view_example:
  "map title (filteredAndSortedEntries sample_runtime sample_entries ''FLY'' Sleep_hours Asc) =
     [''Flying Through Mountains'', ''Garden'']"
  by code_simp





lemma getSuggestion_example:
  "getSuggestion [sample_entry ''Lost in a Forest'' ''Walking through a dark forest'' 6 3 5 7
                    ''2024-01-02T08:00:00+00:00''] =
     ''Try to get more sleep - aim for 7-9 hours per night. '' @
     ''Consider reducing caffeine intake, especially in the afternoon. '' @
     ''High stress levels detected. Try relaxation techniques before bed. '' @
     ''Your sleep quality could improve. Try maintaining a consistent sleep schedule.''"
  by code_simp



text \<open>
  C4.  When the runtime can read the \<^verbatim>\<open>created_at\<close> of every entry, the chart data are the
  entries sorted ascending by that time, cut to the last seven (all of them when there are
  fewer), each mapped to a point with the runtime's short month-and-day label of its
  \<^verbatim>\<open>created_at\<close> and its four metrics.  For ten entries with pairwise different times the
  result has exactly seven points, in strictly ascending time order, and every entry left
  out is older than every entry kept.
\<close>

theorem chartData_recent_window:
  assumes "\<forall>e \<in> set es. has_time rt e"
  shows "chartData rt es =
           map (\<lambda>e. \<lparr>date = date_label rt (created_or_empty e), quality = sleep_quality e,
                      sleep = sleep_hours e, caffeine = caffeine_intake e, stress = stress_level e\<rparr>)
               (drop (length es - 7) (sort_key (time_of rt) es))
       \<and> length (chartData rt es) = min 7 (length es)
       \<and> (length es = 10 \<and> distinct (map (time_of rt) es) \<longrightarrow>
            (\<exists>ws. chartData rt es = map (chart_point rt) ws \<and> length ws = 7 \<and> set ws \<subseteq> set es
                \<and> sorted_wrt (<) (map (time_of rt) ws)
                \<and> (\<forall>e \<in> set es - set ws. \<forall>w \<in> set ws. time_of rt e < time_of rt w)))"
proof (intro conjI impI)
  let ?ws = "drop (length es - 7) (sort_key (time_of rt) es)"
  have eq: "chartData rt es = map (chart_point rt) ?ws"
    by (simp add: chartData_def slice_last_def js_sort_chart [OF assms])
  then show "chartData rt es =
           map (\<lambda>e. \<lparr>date = date_label rt (created_or_empty e), quality = sleep_quality e,
                      sleep = sleep_hours e, caffeine = caffeine_intake e, stress = stress_level e\<rparr>) ?ws"
    by (simp add: chart_point_def [abs_def])
  show "length (chartData rt es) = min 7 (length es)"
    by (rule length_chartData)
  assume "length es = 10 \<and> distinct (map (time_of rt) es)"
  then have len: "length es = 10" and dist: "distinct (map (time_of rt) es)"
    by simp_all
  have "length ?ws = 7" using len by simp
  with eq sort_key_window [OF dist]
  show "\<exists>ws. chartData rt es = map (chart_point rt) ws \<and> length ws = 7 \<and> set ws \<subseteq> set es
                \<and> sorted_wrt (<) (map (time_of rt) ws)
                \<and> (\<forall>e \<in> set es - set ws. \<forall>w \<in> set ws. time_of rt e < time_of rt w)"
    by blast
qed

lemma chartData_example:
  "map date (chartData sample_runtime sample_entries) =
     [''Jan 4'', ''Jan 5'', ''Jan 6'', ''Jan 7'', ''Jan 8'', ''Jan 9'', ''Jan 10'']"
  by code_simp

theorem chartData_recent_window_witness:
  "list_all (has_time sample_runtime) sample_entries \<and>
   length sample_entries = 10 \<and> distinct (map (time_of sample_runtime) sample_entries) \<and>
   length (chartData sample_runtime sample_entries) = 7 \<and>
   (\<exists>ws. chartData sample_runtime sample_entries = map (chart_point sample_runtime) ws \<and>
         sorted_wrt (<) (map (time_of sample_runtime) ws))"
proof -
  have h: "\<forall>e \<in> set sample_entries. has_time sample_runtime e" by code_simp
  have len: "length sample_entries = 10" by (simp add: sample_entries_def)
  have dist: "distinct (map (time_of sample_runtime) sample_entries)" by code_simp
  note window = chartData_recent_window [OF h]
  from window len have l7: "length (chartData sample_runtime sample_entries) = 7"
    by simp
  from window len dist obtain ws
    where "chartData sample_runtime sample_entries = map (chart_point sample_runtime) ws"
      and "sorted_wrt (<) (map (time_of sample_runtime) ws)"
    by blast
  with h len dist l7 show ?thesis unfolding list_all_iff by blast
qed

text \<open>
  C5.  For every entry list, sort key and order, the view under the empty query is a
  permutation of the list, of the same length.
\<close>

theorem view_empty_query_permutation:
  "mset (filteredAndSortedEntries rt es [] sortKey ord) = mset es \<and>
   length (filteredAndSortedEntries rt es [] sortKey ord) = length es"
proof -
  have "filter (entry_matches []) es = es"
    by (simp add: entry_matches_empty)
  then show ?thesis
    by (simp add: filteredAndSortedEntries_def mset_js_sort length_js_sort)
qed

lemma view_empty_query_example:
  "map title (filteredAndSortedEntries sample_runtime (take 3 sample_entries) [] Sleep_quality Asc) =
     [''Stage Fright'', ''Snow'', ''Garden'']"
  by code_simp

theorem view_empty_query_permutation_witness:
  "mset (filteredAndSortedEntries sample_runtime sample_entries [] Created_at Asc) = mset sample_entries \<and>
   length (filteredAndSortedEntries sample_runtime sample_entries [] Created_at Asc) = 10"
  using view_empty_query_permutation [of sample_runtime sample_entries Created_at Asc]
  by (simp add: sample_entries_def)

text \<open>
  C6.  The toggle invoked with the active sort key keeps the key and flips the order
  between ascending and descending; invoked with another key it makes that key active and
  sets the order to descending.  Toggling twice on the active key restores the sort state
  and with it the displayed list.  On entries without ties for the active key one toggle
  reverses the displayed list, so that the second one brings the original order back.
\<close>

theorem toggleSort_behaviour:
  "(sortBy st = f \<longrightarrow>
      sortBy (toggleSort f st) = sortBy st \<and>
      sortOrder (toggleSort f st) = (if sortOrder st = Asc then Desc else Asc) \<and>
      sortOrder (toggleSort f st) \<noteq> sortOrder st \<and>
      toggleSort f (toggleSort f st) = st \<and>
      displayed rt es q (toggleSort f (toggleSort f st)) = displayed rt es q st) \<and>
   (sortBy st \<noteq> f \<longrightarrow>
      sortBy (toggleSort f st) = f \<and> sortOrder (toggleSort f st) = Desc) \<and>
   (sortBy st = f \<and> tie_free rt f es \<longrightarrow>
      displayed rt es q (toggleSort f st) = rev (displayed rt es q st))"
proof (intro conjI impI)
  assume "sortBy st = f \<and> tie_free rt f es"
  then show "displayed rt es q (toggleSort f st) = rev (displayed rt es q st)"
    using toggle_reverses_tie_free [of rt st es q] by simp
qed (cases "sortOrder st"; simp add: toggleSort_def displayed_def)+

theorem toggleSort_behaviour_witness:
  "sortBy \<lparr>sortBy = Created_at, sortOrder = Desc\<rparr> = Created_at \<and>
   tie_free sample_runtime Created_at sample_entries \<and>
   toggleSort Created_at \<lparr>sortBy = Created_at, sortOrder = Desc\<rparr> = \<lparr>sortBy = Created_at, sortOrder = Asc\<rparr> \<and>
   displayed sample_runtime sample_entries ''fly''
     (toggleSort Created_at (toggleSort Created_at \<lparr>sortBy = Created_at, sortOrder = Desc\<rparr>)) =
   displayed sample_runtime sample_entries ''fly'' \<lparr>sortBy = Created_at, sortOrder = Desc\<rparr> \<and>
   displayed sample_runtime sample_entries ''fly''
     (toggleSort Created_at \<lparr>sortBy = Created_at, sortOrder = Desc\<rparr>) =
   rev (displayed sample_runtime sample_entries ''fly'' \<lparr>sortBy = Created_at, sortOrder = Desc\<rparr>) \<and>
   sortBy \<lparr>sortBy = Created_at, sortOrder = Asc\<rparr> \<noteq> Sleep_hours \<and>
   toggleSort Sleep_hours \<lparr>sortBy = Created_at, sortOrder = Asc\<rparr> = \<lparr>sortBy = Sleep_hours, sortOrder = Desc\<rparr>"
proof -
  have tf: "tie_free sample_runtime Created_at sample_entries" by code_simp
  show ?thesis
    using tf
      toggleSort_behaviour [of "\<lparr>sortBy = Created_at, sortOrder = Desc\<rparr>" Created_at sample_runtime sample_entries "''fly''"]
      toggleSort_behaviour [of "\<lparr>sortBy = Created_at, sortOrder = Asc\<rparr>" Sleep_hours]
    by simp
qed

lemma toggle_display_example:
  "map title (displayed sample_runtime sample_entries ''fly'' \<lparr>sortBy = Created_at, sortOrder = Desc\<rparr>) =
     [''Garden'', ''Flying Through Mountains''] \<and>
   map title (displayed sample_runtime sample_entries ''fly''
       (toggleSort Created_at \<lparr>sortBy = Created_at, sortOrder = Desc\<rparr>)) =
     [''Flying Through Mountains'', ''Garden'']"
  by code_simp

section \<open>The workflow claims\<close>

text \<open>
  C7.  When the user is logged in and the store answers the select with a non-empty list
  of rows, the export offers exactly one file: its name is \<open>dreamtracker-backup-\<close>, the
  date part of the clock's ISO time stamp (up to the \<open>T\<close>) and \<open>.json\<close>; its content is
  the array of the rows as the store returned them, written by \<^verbatim>\<open>JSON.stringify\<close> with an
  indentation of two, and \<^verbatim>\<open>JSON.parse\<close> of the content gives back that array.
  Conversely every file the export offers arises this way.
\<close>

theorem export_roundtrip:
  "(getUser be = Some uid \<and> select_entries be uid = (None, Some entries) \<and> entries \<noteq> [] \<longrightarrow>
      handleExportData rt be =
        [Auth_getUser, Select_entries uid,
         Download (''dreamtracker-backup-'' @ takeWhile (\<lambda>c. c \<noteq> CHR ''T'') (now_iso rt) @ ''.json'')
           (JSON_stringify2 (JArray entries)),
         Toast_success ''Data exported successfully!''] \<and>
      JSON_parse (JSON_stringify2 (JArray entries)) = Some (JArray entries)) \<and>
   (Download f d \<in> set (handleExportData rt be) \<longrightarrow>
      (\<exists>u rows. getUser be = Some u \<and> select_entries be u = (None, Some rows) \<and> rows \<noteq> [] \<and>
         f = ''dreamtracker-backup-'' @ takeWhile (\<lambda>c. c \<noteq> CHR ''T'') (now_iso rt) @ ''.json'' \<and>
         d = JSON_stringify2 (JArray rows) \<and> JSON_parse d = Some (JArray rows)))"
proof (intro conjI impI)
  assume "getUser be = Some uid \<and> select_entries be uid = (None, Some entries) \<and> entries \<noteq> []"
  then show "handleExportData rt be =
        [Auth_getUser, Select_entries uid,
         Download (''dreamtracker-backup-'' @ takeWhile (\<lambda>c. c \<noteq> CHR ''T'') (now_iso rt) @ ''.json'')
           (JSON_stringify2 (JArray entries)),
         Toast_success ''Data exported successfully!'']"
    by (simp add: handleExportData_def js_split_first)
  show "JSON_parse (JSON_stringify2 (JArray entries)) = Some (JArray entries)"
    by (rule JSON_roundtrip)
next
  assume "Download f d \<in> set (handleExportData rt be)"
  then show "\<exists>u rows. getUser be = Some u \<and> select_entries be u = (None, Some rows) \<and> rows \<noteq> [] \<and>
         f = ''dreamtracker-backup-'' @ takeWhile (\<lambda>c. c \<noteq> CHR ''T'') (now_iso rt) @ ''.json'' \<and>
         d = JSON_stringify2 (JArray rows) \<and> JSON_parse d = Some (JArray rows)"
    by (auto simp: handleExportData_def js_split_first JSON_roundtrip
        split: option.splits prod.splits if_splits)
qed

lemma export_example:
  "handleExportData sample_runtime sample_backend =
     [Auth_getUser, Select_entries ''u1'',
      Download ''dreamtracker-backup-2024-03-01.json'' (JSON_stringify2 (JArray sample_rows)),
      Toast_success ''Data exported successfully!'']"
  by (simp add: handleExportData_def sample_backend_def sample_runtime_def sample_rows_def)

lemma stringify_example:
  "JSON_stringify2 (JArray [JObject [(''sleep_hours'', JNumber 65 1), (''mood'', JNull)]]) =
     ''['' @ [CHR 0x0A] @
     ''  {'' @ [CHR 0x0A] @
     ''    '' @ [CHR 0x22] @ ''sleep_hours'' @ [CHR 0x22] @ '': 6.5,'' @ [CHR 0x0A] @
     ''    '' @ [CHR 0x22] @ ''mood'' @ [CHR 0x22] @ '': null'' @ [CHR 0x0A] @
     ''  }'' @ [CHR 0x0A] @
     '']''"
  by code_simp

theorem export_roundtrip_witness:
  "getUser sample_backend = Some ''u1'' \<and>
   select_entries sample_backend ''u1'' = (None, Some sample_rows) \<and> sample_rows \<noteq> [] \<and>
   Download ''dreamtracker-backup-2024-03-01.json'' (JSON_stringify2 (JArray sample_rows))
     \<in> set (handleExportData sample_runtime sample_backend) \<and>
   JSON_parse (JSON_stringify2 (JArray sample_rows)) = Some (JArray sample_rows)"
proof -
  have h: "getUser sample_backend = Some ''u1'' \<and>
      select_entries sample_backend ''u1'' = (None, Some sample_rows) \<and> sample_rows \<noteq> []"
    by (simp add: sample_backend_def sample_rows_def)
  have name: "''dreamtracker-backup-'' @ takeWhile (\<lambda>c. c \<noteq> CHR ''T'') (now_iso sample_runtime) @ ''.json''
      = ''dreamtracker-backup-2024-03-01.json''"
    by (simp add: sample_runtime_def)
  from export_roundtrip [of sample_backend "''u1''" sample_rows sample_runtime] h
  have "handleExportData sample_runtime sample_backend =
        [Auth_getUser, Select_entries ''u1'',
         Download (''dreamtracker-backup-'' @ takeWhile (\<lambda>c. c \<noteq> CHR ''T'') (now_iso sample_runtime) @ ''.json'')
           (JSON_stringify2 (JArray sample_rows)),
         Toast_success ''Data exported successfully!'']"
    and "JSON_parse (JSON_stringify2 (JArray sample_rows)) = Some (JArray sample_rows)"
    by blast+
  then show ?thesis using h unfolding name by simp
qed

text \<open>
  C8.  A save with an empty title or an empty content, and a login or sign-up with an
  empty email or password (or, signing up, an empty name) or with a password of fewer than
  six characters, only shows an error toast: the state of the form is unchanged and no
  call to the backend is made.
\<close>

theorem validation_aborts:
  "(dreamTitle js = [] \<or> dreamContent js = [] \<longrightarrow>
      handleSaveEntry be js = (js, [Toast_error ''Please fill in dream title and content''])) \<and>
   (form_email ls = [] \<or> form_password ls = [] \<or> (isSignup ls \<and> form_name ls = []) \<longrightarrow>
      handleSubmit be ls = (ls, [Prevent_default, Toast_error ''Please fill in all fields''])) \<and>
   (form_email ls \<noteq> [] \<and> form_password ls \<noteq> [] \<and> (isSignup ls \<longrightarrow> form_name ls \<noteq> []) \<and>
    length (form_password ls) < 6 \<longrightarrow>
      handleSubmit be ls = (ls, [Prevent_default, Toast_error ''Password must be at least 6 characters''])) \<and>
   (dreamTitle js = [] \<or> dreamContent js = [] \<longrightarrow>
      fst (handleSaveEntry be js) = js \<and>
      list_ex is_error_toast (snd (handleSaveEntry be js)) \<and>
      \<not> list_ex is_network_call (snd (handleSaveEntry be js))) \<and>
   (\<not> form_valid ls \<longrightarrow>
      fst (handleSubmit be ls) = ls \<and>
      list_ex is_error_toast (snd (handleSubmit be ls)) \<and>
      \<not> list_ex is_network_call (snd (handleSubmit be ls)))"
proof (intro conjI impI)
  assume "dreamTitle js = [] \<or> dreamContent js = []"
  then show save: "handleSaveEntry be js = (js, [Toast_error ''Please fill in dream title and content''])"
    by (auto simp: handleSaveEntry_def)
  then show "fst (handleSaveEntry be js) = js"
    and "list_ex is_error_toast (snd (handleSaveEntry be js))"
    and "\<not> list_ex is_network_call (snd (handleSaveEntry be js))"
    by simp_all
next
  assume "form_email ls = [] \<or> form_password ls = [] \<or> (isSignup ls \<and> form_name ls = [])"
  then show "handleSubmit be ls = (ls, [Prevent_default, Toast_error ''Please fill in all fields''])"
    by (auto simp: handleSubmit_def)
next
  assume "form_email ls \<noteq> [] \<and> form_password ls \<noteq> [] \<and> (isSignup ls \<longrightarrow> form_name ls \<noteq> []) \<and>
    length (form_password ls) < 6"
  then show "handleSubmit be ls = (ls, [Prevent_default, Toast_error ''Password must be at least 6 characters''])"
    by (auto simp: handleSubmit_def)
next
  assume inv: "\<not> form_valid ls"
  have "handleSubmit be ls = (ls, [Prevent_default, Toast_error ''Please fill in all fields'']) \<or>
        handleSubmit be ls = (ls, [Prevent_default, Toast_error ''Password must be at least 6 characters''])"
    using inv by (auto simp: handleSubmit_def form_valid_def)
  then show "fst (handleSubmit be ls) = ls"
    and "list_ex is_error_toast (snd (handleSubmit be ls))"
    and "\<not> list_ex is_network_call (snd (handleSubmit be ls))"
    by auto
qed

lemma valid_submit_example:
  "handleSubmit sample_backend sample_login =
     (sample_login, [Prevent_default, Auth_signInWithPassword ''ann@example.org'' ''secret1'',
        Select_profile_name ''u1'', Toast_success ''Welcome back!'',
        On_login ''ann@example.org'' ''ann''])"
  by (simp add: handleSubmit_def sample_backend_def sample_login_def profile_name_or_def)

theorem validation_aborts_witness:
  "dreamTitle sample_journal = [] \<and>
   handleSaveEntry sample_backend sample_journal =
     (sample_journal, [Toast_error ''Please fill in dream title and content'']) \<and>
   form_password (sample_login\<lparr>form_password := ''abc''\<rparr>) = ''abc'' \<and>
   handleSubmit sample_backend (sample_login\<lparr>form_password := ''abc''\<rparr>) =
     (sample_login\<lparr>form_password := ''abc''\<rparr>,
      [Prevent_default, Toast_error ''Password must be at least 6 characters'']) \<and>
   handleSubmit sample_backend (sample_login\<lparr>isSignup := True\<rparr>) =
     (sample_login\<lparr>isSignup := True\<rparr>, [Prevent_default, Toast_error ''Please fill in all fields''])"
proof -
  have t: "dreamTitle sample_journal = []" by (simp add: sample_journal_def)
  have p: "form_email (sample_login\<lparr>form_password := ''abc''\<rparr>) \<noteq> [] \<and>
           form_password (sample_login\<lparr>form_password := ''abc''\<rparr>) \<noteq> [] \<and>
           (isSignup (sample_login\<lparr>form_password := ''abc''\<rparr>) \<longrightarrow>
              form_name (sample_login\<lparr>form_password := ''abc''\<rparr>) \<noteq> []) \<and>
           length (form_password (sample_login\<lparr>form_password := ''abc''\<rparr>)) < 6"
    by (simp add: sample_login_def)
  have s: "isSignup (sample_login\<lparr>isSignup := True\<rparr>) \<and> form_name (sample_login\<lparr>isSignup := True\<rparr>) = []"
    by (simp add: sample_login_def)
  from validation_aborts [of sample_journal sample_backend "sample_login\<lparr>form_password := ''abc''\<rparr>"] t p
  have a: "handleSaveEntry sample_backend sample_journal =
             (sample_journal, [Toast_error ''Please fill in dream title and content''])"
    and b: "handleSubmit sample_backend (sample_login\<lparr>form_password := ''abc''\<rparr>) =
     (sample_login\<lparr>form_password := ''abc''\<rparr>,
      [Prevent_default, Toast_error ''Password must be at least 6 characters''])"
    by blast+
  from validation_aborts [of sample_journal sample_backend "sample_login\<lparr>isSignup := True\<rparr>"] s
  have c: "handleSubmit sample_backend (sample_login\<lparr>isSignup := True\<rparr>) =
     (sample_login\<lparr>isSignup := True\<rparr>, [Prevent_default, Toast_error ''Please fill in all fields''])"
    by blast
  from t a b c show ?thesis by simp
qed

text \<open>
  C9.  When the user is logged in and the store answers the select without an error and
  without rows (an empty list, or no data), the export only shows the error toast
  \<open>No data to export\<close>.  The export offers a file only for a non-empty list of rows.
\<close>

theorem export_empty_aborts:
  "(getUser be = Some uid \<and> (select_entries be uid = (None, Some []) \<or> select_entries be uid = (None, None)) \<longrightarrow>
      handleExportData rt be = [Auth_getUser, Select_entries uid, Toast_error ''No data to export''] \<and>
      list_ex is_error_toast (handleExportData rt be) \<and>
      \<not> list_ex is_download (handleExportData rt be)) \<and>
   (list_ex is_download (handleExportData rt be) \<longrightarrow>
      (\<exists>u rows. getUser be = Some u \<and> select_entries be u = (None, Some rows) \<and> rows \<noteq> []))"
proof (intro conjI impI)
  assume "getUser be = Some uid \<and> (select_entries be uid = (None, Some []) \<or> select_entries be uid = (None, None))"
  then show e: "handleExportData rt be = [Auth_getUser, Select_entries uid, Toast_error ''No data to export'']"
    by (auto simp: handleExportData_def)
  show "list_ex is_error_toast (handleExportData rt be)"
    and "\<not> list_ex is_download (handleExportData rt be)"
    by (simp_all add: e)
next
  assume "list_ex is_download (handleExportData rt be)"
  then show "\<exists>u rows. getUser be = Some u \<and> select_entries be u = (None, Some rows) \<and> rows \<noteq> []"
    by (auto simp: handleExportData_def split: option.splits prod.splits if_splits)
qed

theorem export_empty_aborts_witness:
  "getUser empty_backend = Some ''u1'' \<and> select_entries empty_backend ''u1'' = (None, Some []) \<and>
   handleExportData sample_runtime empty_backend =
     [Auth_getUser, Select_entries ''u1'', Toast_error ''No data to export''] \<and>
   list_ex is_download (handleExportData sample_runtime sample_backend) \<and>
   (\<exists>u rows. getUser sample_backend = Some u \<and> select_entries sample_backend u = (None, Some rows) \<and> rows \<noteq> [])"
proof -
  have h: "getUser empty_backend = Some ''u1'' \<and> select_entries empty_backend ''u1'' = (None, Some [])"
    by (simp add: empty_backend_def sample_backend_def)
  have d: "list_ex is_download (handleExportData sample_runtime sample_backend)"
    by (simp add: handleExportData_def sample_backend_def sample_rows_def)
  from export_empty_aborts [of empty_backend "''u1''" sample_runtime] h
  have a: "handleExportData sample_runtime empty_backend =
     [Auth_getUser, Select_entries ''u1'', Toast_error ''No data to export'']"
    by blast
  from export_empty_aborts [of sample_backend "''u1''" sample_runtime] d
  have b: "\<exists>u rows. getUser sample_backend = Some u \<and> select_entries sample_backend u = (None, Some rows) \<and> rows \<noteq> []"
    by blast
  from h a d b show ?thesis by simp
qed




end
